theory Spec2Isabelle
  imports Main "HOL-Library.Word"
begin

unbundle bit_operations_syntax

section \<open>Inline assembler statements of the D front end (d/asmstmt.cc)\<close>

subsection \<open>Operand descriptors\<close>

datatype AsmArgType =
    Arg_Integer
  | Arg_Pointer
  | Arg_Memory
  | Arg_FrameRelative
  | Arg_LocalSize
  | Arg_Dollar

datatype AsmArgMode = Mode_Input | Mode_Output | Mode_Update

text \<open>
  The front end's expressions, as far as this file looks at them: the tag \<open>op\<close>
  (\<open>TOKvar\<close>, \<open>TOKdsymbol\<close>, \<open>TOKfloat64\<close>, \<open>TOKstring\<close>, anything else), the
  declaration of a \<open>VarExp\<close>, the label of a \<open>DsymbolExp\<close>, and the character size
  \<open>sz\<close> and the bytes of a \<open>StringExp\<close>. Declarations and labels are named by strings.
\<close>

datatype Expression =
    VarExp string
  | DsymbolExp string
  | RealExp string
  | StringExp nat string
  | OtherExp string

text \<open>
  The back end's trees that lowering builds. \<open>Stree v\<close> is the declaration of the
  variable \<open>v\<close> (\<open>var->toSymbol()->Stree\<close>), \<open>LabelTree l\<close> is \<open>irs->getLabelTree\<close>,
  \<open>Elem e\<close> is \<open>e->toElem(irs)\<close>, \<open>AnonStatic u e\<close> is the anonymous read-only static
  variable with the unique name number \<open>u\<close> whose initial value is \<open>e->toElem(irs)\<close>.
\<close>

datatype tree =
    Stree string
  | LabelTree string
  | AddrOf tree
  | IntegerConstant int
  | Elem Expression
  | AnonStatic nat Expression

record AsmArg =
  type :: AsmArgType
  expr :: Expression
  mode :: AsmArgMode

text \<open>
  \<open>insnTemplate\<close> is the byte buffer of length \<open>insnTemplateLen\<close>; the model keeps the
  bytes as a string whose length is that length.
\<close>

record AsmCode =
  insnTemplate :: string
  args :: "AsmArg list"
  moreRegs :: "32 word"
  dollarLabel :: nat
  clobbersMemory :: int

record AsmStatement =
  asmcode :: "AsmCode option"
  regs :: "32 word"

subsection \<open>What lowering takes from the rest of the compiler\<close>

text \<open>
  \<^item> \<open>getFrameRelativeValue\<close>: the frame layout; \<open>None\<close> when the declaration has no
    frame offset (the C function then returns false).
  \<^item> \<open>x_frame_offset\<close>: \<open>cfun->x_frame_offset\<close>, a \<open>HOST_WIDE_INT\<close>.
  \<^item> \<open>HOST_BITS_PER_WIDE_INT\<close>: the width of \<open>HOST_WIDE_INT\<close> on the host.
  \<^item> \<open>naked\<close>: \<open>irs->func->naked\<close>.
  \<^item> \<open>regInfo\<close>: the \<open>gccName\<close> column of the target's register table
    (d-asm-i386.h), by index.
  \<^item> \<open>shift_out_of_range\<close>: the value the compiled front end computes for
    \<open>1 << c\<close> when \<open>c\<close> is not in \<open>[0, 32)\<close>. C leaves this undefined, so it is a
    parameter here; an x86 host masks the count to five bits.
  \<^item> \<open>elem_is_decl\<close>: whether \<open>DECL_P\<close> holds of \<open>e->toElem(irs)\<close>.
  \<^item> \<open>arg_map_init\<close>: the contents of the local array \<open>int arg_map[10]\<close> on entry;
    the array has no initialiser.
  \<^item> \<open>next_unique_init\<close>: the counter behind \<open>giveDeclUniqueName\<close> on entry.
\<close>

record Env =
  getFrameRelativeValue :: "tree \<Rightarrow> int option"
  x_frame_offset :: int
  HOST_BITS_PER_WIDE_INT :: nat
  naked :: bool
  regInfo :: "nat \<Rightarrow> string"
  shift_out_of_range :: "int \<Rightarrow> 32 word"
  elem_is_decl :: "Expression \<Rightarrow> bool"
  arg_map_init :: "nat \<Rightarrow> int"
  next_unique_init :: nat

subsection \<open>Outcomes\<close>

text \<open>
  \<open>AssertionFailed\<close>: an \<open>assert\<close> of the source does not hold and the compiler
  stops. \<open>Error msg\<close>: \<open>this->error(msg)\<close> was called and \<open>toIR\<close> returned at once.
\<close>

datatype failure = AssertionFailed | Error string

text \<open>
  An \<open>ASM_EXPR\<close> handed to \<open>irs->addExp\<close>: template string, outputs, inputs,
  clobbers, and the flags \<open>ASM_VOLATILE_P\<close> and \<open>ASM_INPUT_P\<close>. An operand entry is
  the pair of its constraint string and its value.
\<close>

record asm_expr =
  asm_string :: string
  asm_outputs :: "(string \<times> tree) list"
  asm_inputs :: "(string \<times> tree) list"
  asm_clobbers :: "string list"
  asm_volatile :: bool
  asm_input_p :: bool

subsection \<open>The operand loop of \<open>AsmStatement::toIR\<close>\<close>

text \<open>
  The local variables of \<open>toIR\<close> that the operand loop changes, and what it does to
  the object file: declarations marked \<open>TREE_ADDRESSABLE\<close> and read-only data
  emitted by \<open>rodc\<close>.

  \<open>arg_map\<close> is the array \<open>int arg_map[10]\<close> as a function of the index. The loops
  write it at indices below \<open>args.dim\<close>, which the assertion keeps at 10 or less, and
  the template loop reads it at the value of one decimal digit, so every access lies
  inside the array. The counters and the entries the loops write stay between -10 and
  10, so the C \<open>int\<close>s are integers here. Frame offsets (\<open>HOST_WIDE_INT\<close>) are
  integers in the range of that type; the one operation on them, the negation for
  \<open>Arg_LocalSize\<close>, wraps as written out in \<open>hwi_negate\<close>.
\<close>

record lower_state =
  inputs :: "(string \<times> tree) list"
  outputs :: "(string \<times> tree) list"
  clobbers_mem :: bool
  input_idx :: int
  n_outputs :: int
  arg_map :: "nat \<Rightarrow> int"
  addressable :: "tree list"
  rodata :: "tree list"
  next_unique :: nat

text \<open>
  Modelled from the spec: \<open>ListMaker::cons\<close> (d-codegen.h is not among the sources)
  appends an entry at the end of the list, which keeps the "ordered output-operand
  list" and "ordered input-operand list" in declaration order.
\<close>

definition cons :: "'a list \<Rightarrow> 'a \<Rightarrow> 'a list" where
  "cons l x = l @ [x]"

definition i_cns :: string where "i_cns = ''i''"
definition p_cns :: string where "p_cns = ''p''"
definition m_cns :: string where "m_cns = ''m''"
definition mw_cns :: string where "mw_cns = ''=m''"
definition mrw_cns :: string where "mrw_cns = ''+m''"
definition memory_name :: string where "memory_name = ''memory''"

definition init_state :: "Env \<Rightarrow> AsmCode \<Rightarrow> lower_state" where
  "init_state env code =
     \<lparr> inputs = [], outputs = [],
       clobbers_mem = (clobbersMemory code \<noteq> 0),
       input_idx = 0, n_outputs = 0,
       arg_map = arg_map_init env,
       addressable = [], rodata = [],
       next_unique = next_unique_init env \<rparr>"

text \<open>\<open>DECL_P\<close> of the trees an \<open>Arg_Memory\<close> operand can have as its value.\<close>

fun DECL_P :: "Env \<Rightarrow> tree \<Rightarrow> bool" where
  "DECL_P env (Stree v) = True"
| "DECL_P env (AnonStatic u e) = True"
| "DECL_P env (LabelTree l) = True"
| "DECL_P env (Elem e) = elem_is_decl env e"
| "DECL_P env (AddrOf t) = False"
| "DECL_P env (IntegerConstant n) = False"

text \<open>
  The value of an \<open>Arg_Memory\<close> operand: the variable's declaration, a fresh
  anonymous static for a floating-point literal, or the expression's value.
\<close>

fun memory_value :: "nat \<Rightarrow> Expression \<Rightarrow> tree" where
  "memory_value u (VarExp v) = Stree v"
| "memory_value u (RealExp r) = AnonStatic u (RealExp r)"
| "memory_value u e = Elem e"

fun is_float64 :: "Expression \<Rightarrow> bool" where
  "is_float64 (RealExp r) = True"
| "is_float64 e = False"

text \<open>
  \<open>- x\<close> on a \<open>HOST_WIDE_INT\<close> of \<open>w\<close> bits, as a two's-complement host computes it:
  the least value overflows and comes back as itself.
\<close>

definition hwi_negate :: "nat \<Rightarrow> int \<Rightarrow> int" where
  "hwi_negate w x = (- x + 2 ^ (w - 1)) mod 2 ^ w - 2 ^ (w - 1)"

text \<open>
  The \<open>switch (arg->type)\<close>: the operand's value, its constraint and \<open>is_input\<close>,
  with the state after the case's side effects.
\<close>

fun lower_arg ::
  "Env \<Rightarrow> AsmArg \<Rightarrow> lower_state \<Rightarrow> failure + ((tree \<times> string \<times> bool) \<times> lower_state)" where
  "lower_arg env arg st =
     (case type arg of
        Arg_Integer \<Rightarrow> Inr ((Elem (expr arg), i_cns, True), st)
      | Arg_Pointer \<Rightarrow>
          (case expr arg of
             VarExp v \<Rightarrow> Inr ((AddrOf (Stree v), p_cns, True), st)
           | DsymbolExp l \<Rightarrow> Inr ((AddrOf (LabelTree l), p_cns, True), st)
           | _ \<Rightarrow> Inl AssertionFailed)
      | Arg_Memory \<Rightarrow>
          (let arg_val = memory_value (next_unique st) (expr arg);
               st1 = (if is_float64 (expr arg)
                      then st\<lparr> rodata := rodata st @ [arg_val],
                               next_unique := Suc (next_unique st) \<rparr>
                      else st);
               st2 = (if DECL_P env arg_val
                      then st1\<lparr> addressable := addressable st1 @ [arg_val] \<rparr>
                      else st1)
           in (case mode arg of
                 Mode_Input \<Rightarrow> Inr ((arg_val, m_cns, True), st2)
               | Mode_Output \<Rightarrow> Inr ((arg_val, mw_cns, False), st2)
               | Mode_Update \<Rightarrow> Inr ((arg_val, mrw_cns, False), st2)))
      | Arg_FrameRelative \<Rightarrow>
          (case expr arg of
             VarExp v \<Rightarrow>
               (case getFrameRelativeValue env (Stree v) of
                  Some var_frame_offset \<Rightarrow>
                    Inr ((IntegerConstant var_frame_offset, i_cns, True),
                         (if mode arg = Mode_Input then st else st\<lparr> clobbers_mem := True \<rparr>))
                | None \<Rightarrow> Inl (Error ''argument not frame relative''))
           | _ \<Rightarrow> Inl AssertionFailed)
      | Arg_LocalSize \<Rightarrow>
          (let var_frame_offset = x_frame_offset env;
               var_frame_offset = (if var_frame_offset < 0
                                   then hwi_negate (HOST_BITS_PER_WIDE_INT env) var_frame_offset
                                   else var_frame_offset)
           in Inr ((IntegerConstant var_frame_offset, i_cns, True), st))
      | Arg_Dollar \<Rightarrow> Inl AssertionFailed)"

text \<open>
  The end of the loop body: \<open>arg_map[i] = --input_idx\<close> and an entry on \<open>inputs\<close>, or
  \<open>arg_map[i] = n_outputs++\<close> and an entry on \<open>outputs\<close>.
\<close>

definition record_arg :: "nat \<Rightarrow> tree \<Rightarrow> string \<Rightarrow> bool \<Rightarrow> lower_state \<Rightarrow> lower_state" where
  "record_arg i arg_val cns is_input st =
     (if is_input
      then st\<lparr> input_idx := input_idx st - 1,
               arg_map := (arg_map st)(i := input_idx st - 1),
               inputs := cons (inputs st) (cns, arg_val) \<rparr>
      else st\<lparr> arg_map := (arg_map st)(i := n_outputs st),
               n_outputs := n_outputs st + 1,
               outputs := cons (outputs st) (cns, arg_val) \<rparr>)"

text \<open>The loop over \<open>code->args\<close> from index \<open>i\<close> on; it stops at the first failure.\<close>

fun lower_args :: "Env \<Rightarrow> nat \<Rightarrow> AsmArg list \<Rightarrow> lower_state \<Rightarrow> failure + lower_state" where
  "lower_args env i [] st = Inr st"
| "lower_args env i (arg # rest) st =
     (case lower_arg env arg st of
        Inl f \<Rightarrow> Inl f
      | Inr ((arg_val, cns, is_input), st') \<Rightarrow>
          lower_args env (Suc i) rest (record_arg i arg_val cns is_input st'))"

text \<open>\<open>assert(code->args.dim <= 10)\<close>, then the loop.\<close>

definition lower_operands :: "Env \<Rightarrow> AsmCode \<Rightarrow> failure + lower_state" where
  "lower_operands env code =
     (if length (args code) \<le> 10
      then lower_args env 0 (args code) (init_state env code)
      else Inl AssertionFailed)"

subsection \<open>Clobbers\<close>

text \<open>
  \<open>1 << c\<close> on a 32-bit \<open>int\<close>, read as the \<open>unsigned\<close> it is converted to by \<open>&\<close>.
\<close>

definition shl1 :: "Env \<Rightarrow> int \<Rightarrow> 32 word" where
  "shl1 env c = (if 0 \<le> c \<and> c < 32 then push_bit (nat c) 1 else shift_out_of_range env c)"

text \<open>
  \<open>for (int i = 0; i < 32; i++) if (regs & (1 << i)) clobbers.cons(regInfo[i].gccName)\<close>
\<close>

definition reg_clobbers :: "Env \<Rightarrow> 32 word \<Rightarrow> string list \<Rightarrow> string list" where
  "reg_clobbers env r clobbers =
     fold (\<lambda>i cl. if r AND shl1 env (int i) \<noteq> 0 then cons cl (regInfo env i) else cl)
       [0..<32] clobbers"

text \<open>
  \<open>for (int i = 0; i < 32; i++) if (code->moreRegs & (1 << (i-32)))
  clobbers.cons(regInfo[i].gccName)\<close>
\<close>

definition more_clobbers :: "Env \<Rightarrow> 32 word \<Rightarrow> string list \<Rightarrow> string list" where
  "more_clobbers env m clobbers =
     fold (\<lambda>i cl. if m AND shl1 env (int i - 32) \<noteq> 0 then cons cl (regInfo env i) else cl)
       [0..<32] clobbers"

definition make_clobbers :: "Env \<Rightarrow> 32 word \<Rightarrow> 32 word \<Rightarrow> bool \<Rightarrow> string list" where
  "make_clobbers env r m clob_mem =
     (if naked env then []
      else (let clobbers = reg_clobbers env r [];
                clobbers = more_clobbers env m clobbers
            in if clob_mem then cons clobbers memory_name else clobbers))"

subsection \<open>Remapping the operand numbers\<close>

text \<open>
  \<open>for (i = 0; i < code->args.dim; i++) if (arg_map[i] < 0)
  arg_map[i] = -arg_map[i] - 1 + n_outputs\<close>
\<close>

definition remap_args :: "nat \<Rightarrow> int \<Rightarrow> (nat \<Rightarrow> int) \<Rightarrow> (nat \<Rightarrow> int)" where
  "remap_args dim n_out am =
     fold (\<lambda>i am. if am i < 0 then am(i := - am i - 1 + n_out) else am) [0..<dim] am"

definition is_digit :: "char \<Rightarrow> bool" where
  "is_digit c = ((48::nat) \<le> of_char c \<and> of_char c \<le> (57::nat))"

text \<open>
  The \<open>while (p < q)\<close> loop over the template, from the byte at \<open>p\<close> on, with the flag
  \<open>pct\<close>. A digit after a pending percent sign is overwritten by
  \<open>'0' + arg_map[*p - '0']\<close>, an \<open>int\<close> cut to a \<open>char\<close>.
\<close>

fun rewrite_template :: "(nat \<Rightarrow> int) \<Rightarrow> bool \<Rightarrow> string \<Rightarrow> string" where
  "rewrite_template am pct [] = []"
| "rewrite_template am pct (c # cs) =
     (if pct then
        (if is_digit c
         then char_of (48 + am (of_char c - 48)) # rewrite_template am False cs
         else if c = CHR ''%''
         then c # rewrite_template am False cs
         else c # rewrite_template am pct cs)
      else if c = CHR ''%''
      then c # rewrite_template am True cs
      else c # rewrite_template am pct cs)"

text \<open>
  The flag \<open>pct\<close> after the loop has gone over the bytes given, from the same three
  assignments to it.
\<close>

fun scan_pct :: "bool \<Rightarrow> string \<Rightarrow> bool" where
  "scan_pct pct [] = pct"
| "scan_pct pct (c # cs) =
     scan_pct (if pct then \<not> (is_digit c \<or> c = CHR ''%'') else c = CHR ''%'') cs"

subsection \<open>The private label and \<open>AsmStatement::toIR\<close>\<close>

fun decimal :: "nat \<Rightarrow> string" where
  "decimal n = (if n < 10 then [char_of (48 + n)]
                else decimal (n div 10) @ [char_of (48 + n mod 10)])"

declare decimal.simps [simp del]

text \<open>\<open>d_expand_priv_asm_label\<close>: the text \<open>.LDASM<n>:\<close> as an asm of its own.\<close>

definition d_expand_priv_asm_label :: "nat \<Rightarrow> asm_expr" where
  "d_expand_priv_asm_label n =
     \<lparr> asm_string = ''.LDASM'' @ decimal n @ '':'',
       asm_outputs = [], asm_inputs = [], asm_clobbers = [],
       asm_volatile = True, asm_input_p = True \<rparr>"

text \<open>
  \<open>AsmStatement::toIR\<close> (the branch for GCC 4.0 and later): the expressions it adds to
  the function with \<open>irs->addExp\<close>, in order, or the failure that ended it. The line
  note \<open>gen.doLineNote\<close> is left out.
\<close>

definition toIR :: "Env \<Rightarrow> AsmStatement \<Rightarrow> failure + asm_expr list" where
  "toIR env stmt =
     (case asmcode stmt of
        None \<Rightarrow> Inr []
      | Some code \<Rightarrow>
          (case lower_operands env code of
             Inl f \<Rightarrow> Inl f
           | Inr st \<Rightarrow>
               (let clobbers = make_clobbers env (regs stmt) (moreRegs code) (clobbers_mem st);
                    am = remap_args (length (args code)) (n_outputs st) (arg_map st);
                    insnt = rewrite_template am False (insnTemplate code);
                    t = \<lparr> asm_string = insnt, asm_outputs = outputs st,
                          asm_inputs = inputs st, asm_clobbers = clobbers,
                          asm_volatile = True, asm_input_p = False \<rparr>
                in Inr (if dollarLabel code \<noteq> 0
                        then [t, d_expand_priv_asm_label (dollarLabel code)]
                        else [t]))))"

text \<open>
  The operands the loop body puts on \<open>outputs\<close>: \<open>is_input\<close> is set to false only in
  the \<open>Mode_Output\<close> and \<open>Mode_Update\<close> cases of \<open>Arg_Memory\<close>.
\<close>

definition is_output_arg :: "AsmArg \<Rightarrow> bool" where
  "is_output_arg a = (type a = Arg_Memory \<and> (mode a = Mode_Output \<or> mode a = Mode_Update))"

subsection \<open>\<open>ExtAsmStatement::semantic\<close>\<close>










subsection \<open>Sample inputs\<close>

text \<open>
  A non-naked function on an x86 host (shift counts are taken modulo 32), with no
  variable in the frame, and a register table whose entry \<open>i\<close> is named \<open>r<i>\<close>.
\<close>

definition sample_env :: Env where
  "sample_env =
     \<lparr> getFrameRelativeValue = (\<lambda>t. None),
       x_frame_offset = - 16,
       HOST_BITS_PER_WIDE_INT = 64,
       naked = False,
       regInfo = (\<lambda>i. CHR ''r'' # decimal i),
       shift_out_of_range = (\<lambda>c. push_bit (nat (c mod 32)) 1),
       elem_is_decl = (\<lambda>e. False),
       arg_map_init = (\<lambda>i. 0),
       next_unique_init = 0 \<rparr>"

text \<open>The same inside a naked function whose variable \<open>x\<close> lies at frame offset 8.\<close>

definition naked_env :: Env where
  "naked_env =
     sample_env\<lparr> naked := True,
                 getFrameRelativeValue := (\<lambda>t. if t = Stree ''x'' then Some 8 else None) \<rparr>"

definition val_arg :: AsmArg where
  "val_arg = \<lparr> type = Arg_Integer, expr = OtherExp ''val'', mode = Mode_Input \<rparr>"

definition loc_arg :: AsmArg where
  "loc_arg = \<lparr> type = Arg_Memory, expr = VarExp ''loc'', mode = Mode_Output \<rparr>"

definition frame_arg :: AsmArg where
  "frame_arg = \<lparr> type = Arg_FrameRelative, expr = VarExp ''x'', mode = Mode_Output \<rparr>"

definition upd_arg :: AsmArg where
  "upd_arg = \<lparr> type = Arg_Memory, expr = VarExp ''acc'', mode = Mode_Update \<rparr>"

definition lit_arg :: AsmArg where
  "lit_arg = \<lparr> type = Arg_Memory, expr = RealExp ''1.5'', mode = Mode_Input \<rparr>"

definition dollar_arg :: AsmArg where
  "dollar_arg = \<lparr> type = Arg_Dollar, expr = OtherExp ''$'', mode = Mode_Input \<rparr>"

definition sample_code :: "string \<Rightarrow> AsmArg list \<Rightarrow> AsmCode" where
  "sample_code t as =
     \<lparr> insnTemplate = t, args = as, moreRegs = 0, dollarLabel = 0, clobbersMemory = 0 \<rparr>"


section \<open>Properties\<close>

subsection \<open>The operand loop and the operand numbers\<close>

lemma lower_arg_frame:
  assumes "lower_arg env a st = Inr ((v, c, inp), st')"
  shows "inputs st' = inputs st \<and> outputs st' = outputs st \<and> input_idx st' = input_idx st
       \<and> n_outputs st' = n_outputs st \<and> arg_map st' = arg_map st \<and> inp = (\<not> is_output_arg a)"
  using assms
  by (auto simp: Let_def is_output_arg_def split: AsmArgType.splits Expression.splits
      option.splits AsmArgMode.splits if_splits)

lemma filter_take_mono:
  "a \<le> b \<Longrightarrow> length (filter P (take a xs)) \<le> length (filter P (take b xs))"
proof -
  assume "a \<le> b"
  then have "take b xs = take a xs @ take (b - a) (drop a xs)"
    by (metis le_add_diff_inverse take_add)
  then show ?thesis by simp
qed

lemma filter_take_Suc:
  "i < length xs \<Longrightarrow> P (xs ! i) \<Longrightarrow>
   length (filter P (take (Suc i) xs)) = Suc (length (filter P (take i xs)))"
  by (simp add: take_Suc_conv_app_nth)

lemma filter_take_strict:
  assumes "i < j" "j \<le> length xs" "P (xs ! i)"
  shows "length (filter P (take i xs)) < length (filter P (take j xs))"
proof -
  have "Suc (length (filter P (take i xs))) = length (filter P (take (Suc i) xs))"
    using assms by (simp add: filter_take_Suc)
  also have "\<dots> \<le> length (filter P (take j xs))"
    using assms by (intro filter_take_mono) simp
  finally show ?thesis by simp
qed

lemma remap_args_Suc:
  "remap_args (Suc n) k am =
     (let am' = remap_args n k am in if am' n < 0 then am'(n := - am' n - 1 + k) else am')"
  by (simp add: remap_args_def Let_def)

lemma remap_args_apply:
  "remap_args dim k am j = (if j < dim \<and> am j < 0 then - am j - 1 + k else am j)"
proof (induction dim arbitrary: j)
  case 0
  then show ?case by (simp add: remap_args_def)
next
  case (Suc n)
  have n: "remap_args n k am n = am n" using Suc.IH[of n] by simp
  show ?case
    using Suc.IH[of j] n by (auto simp: remap_args_Suc Let_def)
qed

lemma lower_args_map:
  assumes "lower_args env i as st = Inr st'"
  shows "n_outputs st' = n_outputs st + int (length (filter is_output_arg as))
       \<and> input_idx st' = input_idx st - int (length (filter (\<lambda>a. \<not> is_output_arg a) as))
       \<and> (\<forall>j. arg_map st' j =
            (if i \<le> j \<and> j < i + length as
             then (if is_output_arg (as ! (j - i))
                   then n_outputs st + int (length (filter is_output_arg (take (j - i) as)))
                   else input_idx st - 1
                        - int (length (filter (\<lambda>a. \<not> is_output_arg a) (take (j - i) as))))
             else arg_map st j))"
  using assms
proof (induction as arbitrary: i st)
  case Nil
  then show ?case by simp
next
  case (Cons a as)
  from Cons.prems obtain v c inp st1 where
    la: "lower_arg env a st = Inr ((v, c, inp), st1)" and
    rest: "lower_args env (Suc i) as (record_arg i v c inp st1) = Inr st'"
    by (auto simp del: lower_arg.simps split: sum.splits)
  note fr = lower_arg_frame[OF la]
  note ih = Cons.IH[OF rest]
  let ?st2 = "record_arg i v c inp st1"
  have inp: "inp = (\<not> is_output_arg a)" using fr by simp
  have n2: "n_outputs ?st2 = n_outputs st + (if is_output_arg a then 1 else 0)"
    using fr inp by (simp add: record_arg_def)
  have i2: "input_idx ?st2 = input_idx st - (if is_output_arg a then 0 else 1)"
    using fr inp by (simp add: record_arg_def)
  have m2: "arg_map ?st2 = (arg_map st)(i := (if is_output_arg a then n_outputs st
                                                else input_idx st - 1))"
    using fr inp by (auto simp add: record_arg_def)
  have A: "n_outputs st' = n_outputs st + int (length (filter is_output_arg (a # as)))"
    using ih n2 by simp
  have B: "input_idx st' =
        input_idx st - int (length (filter (\<lambda>a. \<not> is_output_arg a) (a # as)))"
    using ih i2 by simp
  have C: "arg_map st' j =
            (if i \<le> j \<and> j < i + length (a # as)
             then (if is_output_arg ((a # as) ! (j - i))
                   then n_outputs st + int (length (filter is_output_arg (take (j - i) (a # as))))
                   else input_idx st - 1
                        - int (length (filter (\<lambda>a. \<not> is_output_arg a) (take (j - i) (a # as)))))
             else arg_map st j)" for j
  proof -
    consider "j < i" | "j = i" | "i < j" by linarith
    then show ?thesis
    proof cases
      case 1
      then show ?thesis using ih m2 by simp
    next
      case 2
      then show ?thesis using ih m2 by simp
    next
      case 3
      then obtain d where d: "j - i = Suc d" "j - Suc i = d"
        by (metis Suc_diff_Suc diff_Suc_eq_diff_pred Suc_pred zero_less_diff diff_Suc_1)
      show ?thesis using ih m2 n2 i2 3 d by auto
    qed
  qed
  show ?case using A B C by blast
qed


lemma final_map_formula:
  assumes ok: "lower_operands env code = Inr st" and j: "j < length (args code)"
  shows "remap_args (length (args code)) (n_outputs st) (arg_map st) j =
           (if is_output_arg (args code ! j)
            then int (length (filter is_output_arg (take j (args code))))
            else int (length (filter is_output_arg (args code)))
                 + int (length (filter (\<lambda>a. \<not> is_output_arg a) (take j (args code)))))"
proof -
  from ok have la: "lower_args env 0 (args code) (init_state env code) = Inr st"
    by (simp add: lower_operands_def split: if_splits)
  note inv = lower_args_map[OF la]
  have k: "n_outputs st = int (length (filter is_output_arg (args code)))"
    using inv by (simp add: init_state_def)
  have "arg_map st j =
          (if is_output_arg (args code ! j)
           then int (length (filter is_output_arg (take j (args code))))
           else - 1 - int (length (filter (\<lambda>a. \<not> is_output_arg a) (take j (args code)))))"
    using inv j by (simp add: init_state_def)
  then show ?thesis
    using j k by (simp add: remap_args_apply)
qed

lemma n_outputs_final:
  assumes ok: "lower_operands env code = Inr st"
  shows "n_outputs st = int (length (filter is_output_arg (args code)))"
proof -
  from ok have la: "lower_args env 0 (args code) (init_state env code) = Inr st"
    by (simp add: lower_operands_def split: if_splits)
  show ?thesis
    using lower_args_map[OF la] by (simp add: init_state_def)
qed

lemma filter_take_less:
  assumes "i < length xs" "P (xs ! i)"
  shows "length (filter P (take i xs)) < length (filter P xs)"
  using filter_take_strict[of i "length xs" xs P] assms by simp

lemma length_filter_split:
  "length (filter P xs) + length (filter (\<lambda>a. \<not> P a) xs) = length xs"
  by (induction xs) auto

text \<open>
  C1. When the operand loop of a statement completes (so the statement has n operands,
  n at most 10, and every operand lowers), let k be the number of its output operands
  (\<open>Arg_Memory\<close> with \<open>Mode_Output\<close> or \<open>Mode_Update\<close>). The operand numbers after the
  remapping loop are a bijection from the operand positions \<open>0..<n\<close> onto \<open>[0, n)\<close>;
  outputs go to \<open>[0, k)\<close>, inputs to \<open>[k, n)\<close>, and within each group the order of
  declaration is kept. \<open>n_outputs\<close> ends as k.
\<close>

theorem canonical_index_map_bijection:
  assumes ok: "lower_operands env code = Inr st"
  defines "n \<equiv> length (args code)"
  defines "k \<equiv> length (filter is_output_arg (args code))"
  defines "am \<equiv> remap_args (length (args code)) (n_outputs st) (arg_map st)"
  shows "n \<le> 10 \<and> n_outputs st = int k \<and> k \<le> n
       \<and> bij_betw am {..<n} {0..<int n}
       \<and> (\<forall>i<n. is_output_arg (args code ! i) \<longrightarrow> 0 \<le> am i \<and> am i < int k)
       \<and> (\<forall>i<n. \<not> is_output_arg (args code ! i) \<longrightarrow> int k \<le> am i \<and> am i < int n)
       \<and> (\<forall>i j. i < j \<and> j < n \<and> is_output_arg (args code ! i) = is_output_arg (args code ! j)
              \<longrightarrow> am i < am j)"
proof -
  let ?as = "args code"
  let ?O = "\<lambda>j. length (filter is_output_arg (take j ?as))"
  let ?I = "\<lambda>j. length (filter (\<lambda>a. \<not> is_output_arg a) (take j ?as))"
  have n10: "n \<le> 10"
    using ok by (simp add: lower_operands_def n_def split: if_splits)
  have kk: "n_outputs st = int k"
    using n_outputs_final[OF ok] by (simp add: k_def)
  have kn: "k \<le> n" by (simp add: k_def n_def)
  have f: "am j = (if is_output_arg (?as ! j) then int (?O j) else int k + int (?I j))"
    if "j < n" for j
    using final_map_formula[OF ok, of j] that by (simp add: am_def n_def k_def)
  have O: "?O j < k" if "j < n" "is_output_arg (?as ! j)" for j
    using filter_take_less[of j ?as is_output_arg] that by (simp add: n_def k_def)
  have I: "k + ?I j < n" if "j < n" "\<not> is_output_arg (?as ! j)" for j
  proof -
    have "?I j < length (filter (\<lambda>a. \<not> is_output_arg a) ?as)"
      using filter_take_less[of j ?as "\<lambda>a. \<not> is_output_arg a"] that by (simp add: n_def)
    then show ?thesis
      using length_filter_split[of is_output_arg ?as] by (simp add: n_def k_def)
  qed
  have outs: "\<forall>i<n. is_output_arg (?as ! i) \<longrightarrow> 0 \<le> am i \<and> am i < int k"
    using f O by auto
  have ins: "\<forall>i<n. \<not> is_output_arg (?as ! i) \<longrightarrow> int k \<le> am i \<and> am i < int n"
    using f I by (auto simp: less_imp_of_nat_less simp flip: of_nat_add)
  have ord: "am i < am j"
    if "i < j" "j < n" "is_output_arg (?as ! i) = is_output_arg (?as ! j)" for i j
  proof (cases "is_output_arg (?as ! i)")
    case True
    have "?O i < ?O j"
      using filter_take_strict[of i j ?as is_output_arg] that True by (simp add: n_def)
    then show ?thesis using f[of i] f[of j] that True by simp
  next
    case False
    have "?I i < ?I j"
      using filter_take_strict[of i j ?as "\<lambda>a. \<not> is_output_arg a"] that False
      by (simp add: n_def)
    then show ?thesis using f[of i] f[of j] that False by simp
  qed
  have inj: "inj_on am {..<n}"
  proof (rule inj_onI)
    fix i j assume ij: "i \<in> {..<n}" "j \<in> {..<n}" "am i = am j"
    show "i = j"
    proof (rule ccontr)
      assume ne: "i \<noteq> j"
      have same: "is_output_arg (?as ! i) = is_output_arg (?as ! j)"
        using outs ins ij by (metis lessThan_iff not_less)
      from ne consider "i < j" | "j < i" by linarith
      then show False
        using ord[of i j] ord[of j i] same ij by cases auto
    qed
  qed
  have sub: "am ` {..<n} \<subseteq> {0..<int n}"
    using outs ins kn by (auto simp: image_subset_iff) 
  have "card (am ` {..<n}) = card {0..<int n}"
    using inj by (simp add: card_image)
  with sub have "am ` {..<n} = {0..<int n}"
    by (simp add: card_subset_eq)
  with inj have bij: "bij_betw am {..<n} {0..<int n}"
    by (simp add: bij_betw_def)
  show ?thesis
    using n10 kk kn bij outs ins ord by blast
qed

lemma sample_B_lowered:
  "lower_operands sample_env (sample_code ''mov %1, %0'' [val_arg, loc_arg]) =
     Inr \<lparr> inputs = [(''i'', Elem (OtherExp ''val''))], outputs = [(''=m'', Stree ''loc'')],
           clobbers_mem = False, input_idx = - 1, n_outputs = 1,
           arg_map = (\<lambda>i. 0)(0 := - 1, Suc 0 := 0),
           addressable = [Stree ''loc''], rodata = [], next_unique = 0 \<rparr>"
  by (simp add: lower_operands_def sample_env_def sample_code_def val_arg_def loc_arg_def
      init_state_def record_arg_def cons_def i_cns_def mw_cns_def Let_def)

theorem canonical_index_map_bijection_witness:
  "lower_operands sample_env (sample_code ''mov %1, %0'' [val_arg, loc_arg]) =
     Inr \<lparr> inputs = [(''i'', Elem (OtherExp ''val''))], outputs = [(''=m'', Stree ''loc'')],
           clobbers_mem = False, input_idx = - 1, n_outputs = 1,
           arg_map = (\<lambda>i. 0)(0 := - 1, Suc 0 := 0),
           addressable = [Stree ''loc''], rodata = [], next_unique = 0 \<rparr>
   \<and> bij_betw (remap_args 2 1 ((\<lambda>i. 0)(0 := - 1, Suc 0 := 0))) {..<2} {0..<2}
   \<and> remap_args 2 1 ((\<lambda>i. 0)(0 := - 1, Suc 0 := 0)) 0 = 1
   \<and> remap_args 2 1 ((\<lambda>i. 0)(0 := - 1, Suc 0 := 0)) 1 = 0"
proof -
  let ?code = "sample_code ''mov %1, %0'' [val_arg, loc_arg]"
  let ?am = "(\<lambda>i. 0::int)(0 := - 1, Suc 0 := 0)"
  note h = sample_B_lowered
  have n: "length (args ?code) = 2"
    by (simp add: sample_code_def)
  have "bij_betw (remap_args (length (args ?code)) 1 ?am) {..<length (args ?code)}
          {0..<int (length (args ?code))}"
    using canonical_index_map_bijection [OF h] by simp
  then have b: "bij_betw (remap_args 2 1 ?am) {..<2} {0..<2}"
    unfolding n by simp
  have "remap_args 2 1 ?am 0 = 1" "remap_args 2 1 ?am 1 = 0"
    by (simp_all add: remap_args_apply)
  with h b show ?thesis by simp
qed

subsection \<open>Rewriting the template\<close>

lemma percent_not_digit: "\<not> is_digit CHR ''%''"
  by (simp add: is_digit_def)

lemma rewrite_template_length: "length (rewrite_template am pct s) = length s"
  by (induction s arbitrary: pct) auto

lemma scan_pct_snoc:
  "scan_pct pct (xs @ [c]) =
     (if scan_pct pct xs then \<not> (is_digit c \<or> c = CHR ''%'') else c = CHR ''%'')"
  by (induction xs arbitrary: pct) auto

lemma rewrite_template_nth:
  "i < length s \<Longrightarrow>
   rewrite_template am pct s ! i =
     (if scan_pct pct (take i s) \<and> is_digit (s ! i)
      then char_of (48 + am (of_char (s ! i) - 48)) else s ! i)"
proof (induction s arbitrary: pct i)
  case Nil
  then show ?case by simp
next
  case (Cons c cs)
  show ?case
  proof (cases i)
    case 0
    then show ?thesis by simp
  next
    case (Suc i')
    with Cons.prems have "i' < length cs" by simp
    from Cons.IH[OF this] show ?thesis
      using Suc by simp
  qed
qed

lemma scan_pct_pending:
  assumes "scan_pct pct xs"
  shows "(pct \<and> (\<forall>k<length xs. \<not> is_digit (xs ! k) \<and> xs ! k \<noteq> CHR ''%''))
       \<or> (\<exists>j<length xs. xs ! j = CHR ''%'' \<and> \<not> scan_pct pct (take j xs)
            \<and> (\<forall>k. j < k \<and> k < length xs \<longrightarrow> \<not> is_digit (xs ! k) \<and> xs ! k \<noteq> CHR ''%''))"
  using assms
proof (induction xs rule: rev_induct)
  case Nil
  then show ?case by simp
next
  case (snoc x xs)
  show ?case
  proof (cases "scan_pct pct xs")
    case False
    with snoc.prems have x: "x = CHR ''%''"
      by (simp add: scan_pct_snoc)
    have "(xs @ [x]) ! length xs = CHR ''%'' \<and> \<not> scan_pct pct (take (length xs) (xs @ [x]))
          \<and> (\<forall>k. length xs < k \<and> k < length (xs @ [x]) \<longrightarrow>
                \<not> is_digit ((xs @ [x]) ! k) \<and> (xs @ [x]) ! k \<noteq> CHR ''%'')"
      using x False by auto
    then show ?thesis
      by (metis length_append_singleton lessI)
  next
    case True
    with snoc.prems have x: "\<not> is_digit x" "x \<noteq> CHR ''%''"
      by (simp_all add: scan_pct_snoc)
    from snoc.IH[OF True] show ?thesis
    proof
      assume a: "pct \<and> (\<forall>k<length xs. \<not> is_digit (xs ! k) \<and> xs ! k \<noteq> CHR ''%'')"
      then have "\<forall>k<length (xs @ [x]). \<not> is_digit ((xs @ [x]) ! k) \<and> (xs @ [x]) ! k \<noteq> CHR ''%''"
        using x by (auto simp: nth_append)
      with a show ?thesis by blast
    next
      assume "\<exists>j<length xs. xs ! j = CHR ''%'' \<and> \<not> scan_pct pct (take j xs)
            \<and> (\<forall>k. j < k \<and> k < length xs \<longrightarrow> \<not> is_digit (xs ! k) \<and> xs ! k \<noteq> CHR ''%'')"
      then obtain j where j: "j < length xs" "xs ! j = CHR ''%''" "\<not> scan_pct pct (take j xs)"
        "\<forall>k. j < k \<and> k < length xs \<longrightarrow> \<not> is_digit (xs ! k) \<and> xs ! k \<noteq> CHR ''%''"
        by blast
      have "j < length (xs @ [x]) \<and> (xs @ [x]) ! j = CHR ''%''
           \<and> \<not> scan_pct pct (take j (xs @ [x]))
           \<and> (\<forall>k. j < k \<and> k < length (xs @ [x]) \<longrightarrow>
                \<not> is_digit ((xs @ [x]) ! k) \<and> (xs @ [x]) ! k \<noteq> CHR ''%'')"
        using j x by (auto simp: nth_append)
      then show ?thesis by blast
    qed
  qed
qed

lemma escaped_percent_clears:
  assumes "Suc i < length s" and "s ! i = CHR ''%''" and "s ! Suc i = CHR ''%''"
    and "\<not> scan_pct False (take i s)"
  shows "scan_pct False (take (Suc i) s)" and "\<not> scan_pct False (take (Suc (Suc i)) s)"
proof -
  have a: "take (Suc i) s = take i s @ [CHR ''%'']"
    using assms(1,2) by (simp add: take_Suc_conv_app_nth)
  have b: "take (Suc (Suc i)) s = take (Suc i) s @ [CHR ''%'']"
    using assms(1,3) by (simp add: take_Suc_conv_app_nth)
  show c: "scan_pct False (take (Suc i) s)"
    using assms(4) by (simp only: a scan_pct_snoc) simp
  show "\<not> scan_pct False (take (Suc (Suc i)) s)"
    using c by (simp only: b scan_pct_snoc) simp
qed

text \<open>
  C8, as the code has it. Rewriting keeps the length of the template. A byte that it
  changes is a decimal digit, and some unescaped percent sign (one met while no percent
  sign is pending) stands before it with nothing but bytes that are neither digits nor
  percent signs in between; the digit need not follow the percent sign at once. A byte
  met while no percent sign is pending is left as it is. In \<open>%%\<close> with an unescaped first
  percent sign, the second percent sign and the byte after it are left as they are, also
  when that byte is a digit.
\<close>

theorem rewrite_template_frame:
  "length (rewrite_template am False s) = length s
   \<and> (\<forall>i<length s. rewrite_template am False s ! i \<noteq> s ! i \<longrightarrow>
         is_digit (s ! i)
         \<and> (\<exists>j<i. s ! j = CHR ''%'' \<and> \<not> scan_pct False (take j s)
              \<and> (\<forall>k. j < k \<and> k < i \<longrightarrow> \<not> is_digit (s ! k) \<and> s ! k \<noteq> CHR ''%'')))
   \<and> (\<forall>i<length s. \<not> scan_pct False (take i s) \<longrightarrow> rewrite_template am False s ! i = s ! i)
   \<and> (\<forall>i. Suc (Suc i) < length s \<and> s ! i = CHR ''%'' \<and> s ! Suc i = CHR ''%''
            \<and> \<not> scan_pct False (take i s) \<longrightarrow>
          rewrite_template am False s ! Suc i = CHR ''%''
          \<and> rewrite_template am False s ! Suc (Suc i) = s ! Suc (Suc i))"
proof -
  have changed: "is_digit (s ! i)
         \<and> (\<exists>j<i. s ! j = CHR ''%'' \<and> \<not> scan_pct False (take j s)
              \<and> (\<forall>k. j < k \<and> k < i \<longrightarrow> \<not> is_digit (s ! k) \<and> s ! k \<noteq> CHR ''%''))"
    if i: "i < length s" and ne: "rewrite_template am False s ! i \<noteq> s ! i" for i
  proof -
    from i ne have p: "scan_pct False (take i s)" and d: "is_digit (s ! i)"
      by (auto simp: rewrite_template_nth split: if_splits)
    from scan_pct_pending[OF p] obtain j where j: "j < length (take i s)"
      "take i s ! j = CHR ''%''" "\<not> scan_pct False (take j (take i s))"
      "\<forall>k. j < k \<and> k < length (take i s) \<longrightarrow>
           \<not> is_digit (take i s ! k) \<and> take i s ! k \<noteq> CHR ''%''"
      by blast
    from j(1) i have ji: "j < i" by simp
    have "s ! j = CHR ''%''" using j(2) ji by simp
    moreover have "\<not> scan_pct False (take j s)"
      using j(3) ji by (simp add: min_def)
    moreover have "\<forall>k. j < k \<and> k < i \<longrightarrow> \<not> is_digit (s ! k) \<and> s ! k \<noteq> CHR ''%''"
      using j(4) i by auto
    ultimately show ?thesis using d ji by blast
  qed
  have same: "rewrite_template am False s ! i = s ! i"
    if "i < length s" "\<not> scan_pct False (take i s)" for i
    using that by (simp add: rewrite_template_nth)
  have esc: "rewrite_template am False s ! Suc i = CHR ''%''
           \<and> rewrite_template am False s ! Suc (Suc i) = s ! Suc (Suc i)"
    if "Suc (Suc i) < length s" "s ! i = CHR ''%''" "s ! Suc i = CHR ''%''"
       "\<not> scan_pct False (take i s)" for i
  proof -
    from that have "Suc i < length s" by simp
    from escaped_percent_clears(2)[OF this that(2,3,4)]
    have "rewrite_template am False s ! Suc (Suc i) = s ! Suc (Suc i)"
      using that(1) by (simp add: rewrite_template_nth)
    moreover have "rewrite_template am False s ! Suc i = CHR ''%''"
      using that(1,3) by (simp add: rewrite_template_nth percent_not_digit)
    ultimately show ?thesis by simp
  qed
  show ?thesis
    using changed same esc by (simp add: rewrite_template_length)
qed

text \<open>
  C3, as the code has it. When a percent sign is pending and the next byte is neither a
  decimal digit nor a percent sign, the byte is left untouched and the percent sign
  stays pending. So in a percent sign, one modifier letter and a digit, the digit is
  replaced by the character for the remapped number of the operand it names.
\<close>

theorem pending_kept_across_modifier:
  assumes "\<not> is_digit c" and "c \<noteq> CHR ''%''"
  shows "rewrite_template am True (c # cs) = c # rewrite_template am True cs
       \<and> rewrite_template am False (CHR ''%'' # c # d # cs) =
           CHR ''%'' # c # (if is_digit d then char_of (48 + am (of_char d - 48)) else d)
             # rewrite_template am (\<not> is_digit d \<and> d \<noteq> CHR ''%'') cs"
  using assms by simp


subsection \<open>Clobbers and whole statements\<close>

lemma fold_cons_filter:
  "fold (\<lambda>i cl. if P i then cons cl (f i) else cl) xs cl = cl @ map f (filter P xs)"
  by (induction xs arbitrary: cl) (auto simp: cons_def)

lemma reg_clobbers_eq:
  "reg_clobbers env r cl =
     cl @ map (regInfo env) (filter (\<lambda>i. r AND push_bit i 1 \<noteq> 0) [0..<32])"
proof -
  have "filter (\<lambda>i. r AND shl1 env (int i) \<noteq> 0) [0..<32] =
        filter (\<lambda>i. r AND push_bit i 1 \<noteq> 0) [0..<32]"
    by (rule filter_cong) (auto simp: shl1_def)
  then show ?thesis
    by (simp add: reg_clobbers_def fold_cons_filter)
qed

lemma more_clobbers_eq:
  "more_clobbers env m cl =
     cl @ map (regInfo env)
            (filter (\<lambda>i. m AND shift_out_of_range env (int i - 32) \<noteq> 0) [0..<32])"
proof -
  have "filter (\<lambda>i. m AND shl1 env (int i - 32) \<noteq> 0) [0..<32] =
        filter (\<lambda>i. m AND shift_out_of_range env (int i - 32) \<noteq> 0) [0..<32]"
    by (rule filter_cong) (auto simp: shl1_def)
  then show ?thesis
    by (simp add: more_clobbers_def fold_cons_filter)
qed

lemma make_clobbers_none: "make_clobbers env 0 0 False = []"
  by (simp add: make_clobbers_def reg_clobbers_eq more_clobbers_eq)

lemma make_clobbers_naked: "naked env \<Longrightarrow> make_clobbers env r m cm = []"
  by (simp add: make_clobbers_def)

lemmas sample_defs = sample_env_def naked_env_def sample_code_def val_arg_def loc_arg_def
  frame_arg_def dollar_arg_def

lemmas lower_defs = lower_operands_def init_state_def record_arg_def cons_def Let_def
  i_cns_def p_cns_def m_cns_def mw_cns_def mrw_cns_def memory_name_def

text \<open>
  C3 as stated fails: in \<open>jmp %a1\<close> with an input operand 0 and an output operand 1 the
  digit after the modifier letter is rewritten to 0.
\<close>

theorem modifier_digit_counterexample:
  "toIR sample_env \<lparr> asmcode = Some (sample_code ''jmp %a1'' [val_arg, loc_arg]), regs = 0 \<rparr> =
     Inr [\<lparr> asm_string = ''jmp %a0'', asm_outputs = [(''=m'', Stree ''loc'')],
            asm_inputs = [(''i'', Elem (OtherExp ''val''))], asm_clobbers = [],
            asm_volatile = True, asm_input_p = False \<rparr>]"
  by (simp add: toIR_def make_clobbers_none sample_defs lower_defs remap_args_apply is_digit_def
      char_of_def bit_0)

text \<open>
  C8 as stated fails: in \<open>mov %ax, 1\<close> the digit 1 does not follow a percent sign, and it
  is rewritten to 0.
\<close>

theorem distant_digit_counterexample:
  "toIR sample_env \<lparr> asmcode = Some (sample_code ''mov %ax, 1'' [val_arg, loc_arg]), regs = 0 \<rparr> =
     Inr [\<lparr> asm_string = ''mov %ax, 0'', asm_outputs = [(''=m'', Stree ''loc'')],
            asm_inputs = [(''i'', Elem (OtherExp ''val''))], asm_clobbers = [],
            asm_volatile = True, asm_input_p = False \<rparr>]"
  by (simp add: toIR_def make_clobbers_none sample_defs lower_defs remap_args_apply is_digit_def
      char_of_def bit_0)

text \<open>
  C2 on the code. With one operand, the template \<open>%1\<close> names an operand that does not
  exist. \<open>toIR\<close> reports nothing and emits the statement; the digit is replaced by
  \<open>'0'\<close> plus whatever slot 1 of the uninitialised array \<open>arg_map\<close> held on entry.
  Eleven operands fail the assertion on \<open>args.dim\<close>.
\<close>

theorem out_of_range_digit_reads_arg_map:
  "toIR env \<lparr> asmcode = Some (sample_code ''%1'' [val_arg]), regs = 0 \<rparr> =
     Inr [\<lparr> asm_string = [CHR ''%'', char_of (48 + arg_map_init env 1)], asm_outputs = [],
            asm_inputs = [(''i'', Elem (OtherExp ''val''))], asm_clobbers = [],
            asm_volatile = True, asm_input_p = False \<rparr>]
   \<and> toIR env \<lparr> asmcode = Some (sample_code ''%0'' (replicate 11 val_arg)), regs = 0 \<rparr> =
       Inl AssertionFailed"
  by (simp add: toIR_def make_clobbers_none sample_defs lower_defs remap_args_apply is_digit_def
      char_of_def bit_0)

text \<open>
  C4 on the code. The second clobber loop tests \<open>moreRegs\<close> against \<open>1 << (i - 32)\<close>,
  a shift by a negative count, and names \<open>regInfo[i]\<close> for \<open>i\<close> in \<open>[0, 32)\<close>: whatever
  the shift yields, every name it adds comes from the table indices 0 to 31, never
  from 32 to 63. On a host that masks shift counts, bit 0 of \<open>moreRegs\<close> adds the name of
  register 0.
\<close>

theorem more_clobbers_names_low_registers:
  "more_clobbers env m cl =
     cl @ map (regInfo env)
            (filter (\<lambda>i. m AND shift_out_of_range env (int i - 32) \<noteq> 0) [0..<32])
   \<and> toIR sample_env \<lparr> asmcode = Some ((sample_code ''nop'' [])\<lparr> moreRegs := 1 \<rparr>), regs = 0 \<rparr> =
       Inr [\<lparr> asm_string = ''nop'', asm_outputs = [], asm_inputs = [], asm_clobbers = [''r0''],
              asm_volatile = True, asm_input_p = False \<rparr>]"
proof -
  have "filter (\<lambda>i. (1::32 word) AND push_bit (nat ((int i - 32) mod 32)) 1 \<noteq> 0) [0..<32] = [0]"
    by (simp add: upt_rec)
  then have "make_clobbers sample_env 0 1 False = [''r0'']"
    by (simp add: make_clobbers_def reg_clobbers_eq more_clobbers_eq sample_env_def decimal.simps
        lower_defs char_of_def bit_0)
  then show ?thesis
    by (simp add: more_clobbers_eq toIR_def sample_code_def lower_defs remap_args_def is_digit_def)
qed


theorem pending_kept_across_modifier_witness:
  "\<not> is_digit CHR ''a'' \<and> CHR ''a'' \<noteq> CHR ''%''
   \<and> rewrite_template ((\<lambda>i. 0)(0 := 1)) True ''a'' = ''a''
   \<and> rewrite_template ((\<lambda>i. 0)(0 := 1)) False ''%a0'' = ''%a1''"
proof -
  have h: "\<not> is_digit CHR ''a''" "CHR ''a'' \<noteq> CHR ''%''"
    by (simp_all add: is_digit_def)
  from pending_kept_across_modifier [OF h, where am = "(\<lambda>i. 0)(0 := 1)" and cs = "[]"
      and d = "CHR ''0''"]
  show ?thesis
    using h by (simp add: is_digit_def char_of_def bit_0)
qed

theorem rewrite_template_frame_witness:
  "length (rewrite_template ((\<lambda>i. 0)(0 := 1)) False ''%0 %%0'') = 6
   \<and> rewrite_template ((\<lambda>i. 0)(0 := 1)) False ''%0 %%0'' ! 4 = CHR ''%''
   \<and> rewrite_template ((\<lambda>i. 0)(0 := 1)) False ''%0 %%0'' ! 5 = CHR ''0''
   \<and> rewrite_template ((\<lambda>i. 0)(0 := 1)) False ''%0 %%0'' = ''%1 %%0''"
proof -
  have h: "Suc (Suc 3) < length ''%0 %%0'' \<and> ''%0 %%0'' ! 3 = CHR ''%''
      \<and> ''%0 %%0'' ! Suc 3 = CHR ''%'' \<and> \<not> scan_pct False (take 3 ''%0 %%0'')"
    by (simp add: is_digit_def)
  from rewrite_template_frame [where am = "(\<lambda>i. 0)(0 := 1)" and s = "''%0 %%0''"] h
  have "rewrite_template ((\<lambda>i. 0)(0 := 1)) False ''%0 %%0'' ! Suc 3 = CHR ''%''
      \<and> rewrite_template ((\<lambda>i. 0)(0 := 1)) False ''%0 %%0'' ! Suc (Suc 3) = ''%0 %%0'' ! Suc (Suc 3)"
    by blast
  then show ?thesis
    by (simp add: is_digit_def char_of_def bit_0)
qed

text \<open>
  C5. In a naked function the clobber list is empty whatever \<open>regs\<close>, \<open>moreRegs\<close> and
  the memory flag are, and every expression \<open>toIR\<close> emits has no clobbers.
\<close>

theorem naked_clobbers_empty:
  assumes "naked env" and "toIR env stmt = Inr es"
  shows "make_clobbers env r m cm = [] \<and> (\<forall>e\<in>set es. asm_clobbers e = [])"
proof -
  have "asm_clobbers e = []" if "e \<in> set es" for e
    using assms that
    by (auto simp: toIR_def make_clobbers_naked d_expand_priv_asm_label_def Let_def
        split: option.splits sum.splits if_splits)
  then show ?thesis
    using assms by (simp add: make_clobbers_naked)
qed

lemma naked_sample_lowered:
  "toIR naked_env
     \<lparr> asmcode = Some ((sample_code ''mov %1, %0'' [frame_arg, loc_arg])
                        \<lparr> moreRegs := 1, clobbersMemory := 1 \<rparr>),
       regs = 7 \<rparr> =
   Inr [\<lparr> asm_string = ''mov %0, %1'', asm_outputs = [(''=m'', Stree ''loc'')],
          asm_inputs = [(''i'', IntegerConstant 8)], asm_clobbers = [],
          asm_volatile = True, asm_input_p = False \<rparr>]"
  by (simp add: toIR_def make_clobbers_naked sample_defs lower_defs remap_args_apply is_digit_def
      char_of_def bit_0)

theorem naked_clobbers_empty_witness:
  "naked naked_env
   \<and> toIR naked_env
       \<lparr> asmcode = Some ((sample_code ''mov %1, %0'' [frame_arg, loc_arg])
                          \<lparr> moreRegs := 1, clobbersMemory := 1 \<rparr>),
         regs = 7 \<rparr> =
     Inr [\<lparr> asm_string = ''mov %0, %1'', asm_outputs = [(''=m'', Stree ''loc'')],
            asm_inputs = [(''i'', IntegerConstant 8)], asm_clobbers = [],
            asm_volatile = True, asm_input_p = False \<rparr>]
   \<and> make_clobbers naked_env 7 1 True = []"
proof -
  have n: "naked naked_env"
    by (simp add: naked_env_def sample_env_def)
  from naked_clobbers_empty [OF n naked_sample_lowered, where r = 7 and m = 1 and cm = True]
  show ?thesis
    using n naked_sample_lowered by simp
qed

subsection \<open>Operands that do not lower\<close>

lemma lower_args_append:
  "lower_args env i (xs @ ys) st =
     (case lower_args env i xs st of
        Inl f \<Rightarrow> Inl f
      | Inr st' \<Rightarrow> lower_args env (i + length xs) ys st')"
  by (induction xs arbitrary: i st) (auto simp del: lower_arg.simps split: sum.splits)

lemma lower_arg_failures:
  "lower_arg env a st = Inl f \<Longrightarrow>
   f = AssertionFailed \<or> f = Error ''argument not frame relative''"
  by (auto simp: Let_def split: AsmArgType.splits Expression.splits option.splits
      AsmArgMode.splits if_splits)

lemma lower_args_failures:
  "lower_args env i as st = Inl f \<Longrightarrow>
   f = AssertionFailed \<or> f = Error ''argument not frame relative''"
proof (induction as arbitrary: i st)
  case Nil
  then show ?case by simp
next
  case (Cons a as)
  show ?case
  proof (cases "lower_arg env a st")
    case (Inl g)
    with Cons.prems have "f = g" by (simp del: lower_arg.simps)
    with lower_arg_failures[OF Inl] show ?thesis by simp
  next
    case (Inr r)
    obtain v c inp st1 where r: "r = ((v, c, inp), st1)" by (cases r) auto
    from Cons.prems Inr r
    have "lower_args env (Suc i) as (record_arg i v c inp st1) = Inl f"
      by (simp del: lower_arg.simps)
    from Cons.IH[OF this] show ?thesis .
  qed
qed

lemma lower_arg_Dollar: "type arg = Arg_Dollar \<Longrightarrow> lower_arg env arg st = Inl AssertionFailed"
  by simp

lemma lower_arg_unresolved:
  "type arg = Arg_FrameRelative \<Longrightarrow> expr arg = VarExp v \<Longrightarrow>
   getFrameRelativeValue env (Stree v) = None \<Longrightarrow>
   lower_arg env arg st = Inl (Error ''argument not frame relative'')"
  by simp

text \<open>
  C10. An operand of kind \<open>Arg_Dollar\<close> (the only kind besides the five with a case)
  reaches \<open>default: assert(0)\<close>: its lowering is a failed assertion in every state,
  with no operand entry and no reported error. So the loop fails the assertion when it
  gets to such an operand, and \<open>toIR\<close> of a statement with at most 10 operands whose
  operands before it lower ends with the failed assertion.
\<close>

theorem dollar_operand_fails_assertion:
  assumes "type arg = Arg_Dollar"
  shows "lower_arg env arg st = Inl AssertionFailed
       \<and> (\<forall>i pre rest s. lower_args env i pre s = Inr st \<longrightarrow>
             lower_args env i (pre @ arg # rest) s = Inl AssertionFailed)
       \<and> (asmcode stmt = Some code \<and> args code = pre @ arg # rest \<and> length (args code) \<le> 10
            \<and> lower_args env 0 pre (init_state env code) = Inr st
          \<longrightarrow> toIR env stmt = Inl AssertionFailed)"
proof -
  have a: "lower_arg env arg s = Inl AssertionFailed" for s
    using assms by (rule lower_arg_Dollar)
  have b: "lower_args env i (pre @ arg # rest) s = Inl AssertionFailed"
    if "lower_args env i pre s = Inr st" for i pre rest s
    using that a by (simp add: lower_args_append del: lower_arg.simps)
  have c: "toIR env stmt = Inl AssertionFailed"
    if "asmcode stmt = Some code" "args code = pre @ arg # rest" "length (args code) \<le> 10"
       "lower_args env 0 pre (init_state env code) = Inr st"
    using that b[of 0 pre "init_state env code" rest]
    by (simp add: toIR_def lower_operands_def del: lower_arg.simps)
  show ?thesis using a b c by blast
qed

theorem dollar_operand_fails_assertion_witness:
  "type dollar_arg = Arg_Dollar
   \<and> lower_arg sample_env dollar_arg (init_state sample_env (sample_code ''jmp $'' [dollar_arg]))
       = Inl AssertionFailed
   \<and> toIR sample_env \<lparr> asmcode = Some (sample_code ''jmp $'' [dollar_arg]), regs = 0 \<rparr>
       = Inl AssertionFailed"
proof -
  have h: "type dollar_arg = Arg_Dollar"
    by (simp add: dollar_arg_def)
  from dollar_operand_fails_assertion [OF h, where env = sample_env
      and st = "init_state sample_env (sample_code ''jmp $'' [dollar_arg])"
      and stmt = "\<lparr> asmcode = Some (sample_code ''jmp $'' [dollar_arg]), regs = 0 \<rparr>"
      and code = "sample_code ''jmp $'' [dollar_arg]" and pre = "[]" and rest = "[]"]
  show ?thesis
    using h by (simp add: sample_code_def del: lower_arg.simps)
qed

text \<open>
  C7, as the code has it. Let a statement have an \<open>Arg_FrameRelative\<close> operand on a
  variable for which \<open>getFrameRelativeValue\<close> gives no offset. Then \<open>toIR\<close> emits
  nothing: it ends with the error "argument not frame relative" or with a failed
  assertion. If the statement has at most 10 operands and the operands before this
  one lower, it ends with that error.
\<close>

theorem frame_relative_unresolved:
  assumes "asmcode stmt = Some code" and "i < length (args code)"
    and "type (args code ! i) = Arg_FrameRelative" and "expr (args code ! i) = VarExp v"
    and "getFrameRelativeValue env (Stree v) = None"
  shows "(toIR env stmt = Inl (Error ''argument not frame relative'')
          \<or> toIR env stmt = Inl AssertionFailed)
       \<and> (length (args code) \<le> 10
            \<and> (\<exists>st. lower_args env 0 (take i (args code)) (init_state env code) = Inr st)
          \<longrightarrow> toIR env stmt = Inl (Error ''argument not frame relative''))"
proof -
  let ?as = "args code"
  let ?s0 = "init_state env code"
  have split: "?as = take i ?as @ ?as ! i # drop (Suc i) ?as"
    using assms(2) by (simp add: id_take_nth_drop)
  have u: "lower_arg env (?as ! i) s = Inl (Error ''argument not frame relative'')" for s
    using assms(3-5) by (rule lower_arg_unresolved)
  have reach: "lower_args env 0 ?as ?s0 = Inl (Error ''argument not frame relative'')"
    if "lower_args env 0 (take i ?as) ?s0 = Inr st" for st
  proof -
    have "lower_args env 0 (take i ?as @ ?as ! i # drop (Suc i) ?as) ?s0 =
          Inl (Error ''argument not frame relative'')"
      using that u by (simp add: lower_args_append del: lower_arg.simps)
    with split show ?thesis by simp
  qed
  have fails: "lower_args env 0 ?as ?s0 = Inl (Error ''argument not frame relative'')
             \<or> lower_args env 0 ?as ?s0 = Inl AssertionFailed"
  proof (cases "lower_args env 0 (take i ?as) ?s0")
    case (Inl f)
    have "lower_args env 0 (take i ?as @ ?as ! i # drop (Suc i) ?as) ?s0 = Inl f"
      using Inl by (simp add: lower_args_append del: lower_arg.simps)
    with split have "lower_args env 0 ?as ?s0 = Inl f" by simp
    with lower_args_failures[OF Inl] show ?thesis by auto
  next
    case (Inr st)
    from reach[OF this] show ?thesis by simp
  qed
  have A: "toIR env stmt = Inl (Error ''argument not frame relative'')
          \<or> toIR env stmt = Inl AssertionFailed"
    using fails assms(1) by (auto simp: toIR_def lower_operands_def simp del: lower_arg.simps)
  have B: "toIR env stmt = Inl (Error ''argument not frame relative'')"
    if "length ?as \<le> 10" "lower_args env 0 (take i ?as) ?s0 = Inr st" for st
    using reach[OF that(2)] that(1) assms(1)
    by (simp add: toIR_def lower_operands_def del: lower_arg.simps)
  show ?thesis using A B by blast
qed

theorem frame_relative_unresolved_witness:
  "toIR sample_env \<lparr> asmcode = Some (sample_code ''mov %0, %1'' [val_arg, frame_arg]), regs = 0 \<rparr>
     = Inl (Error ''argument not frame relative'')"
proof -
  let ?code = "sample_code ''mov %0, %1'' [val_arg, frame_arg]"
  let ?stmt = "\<lparr> asmcode = Some ?code, regs = 0 \<rparr>"
  have h: "asmcode ?stmt = Some ?code" "1 < length (args ?code)"
    "type (args ?code ! 1) = Arg_FrameRelative" "expr (args ?code ! 1) = VarExp ''x''"
    "getFrameRelativeValue sample_env (Stree ''x'') = None"
    by (simp_all add: sample_code_def frame_arg_def sample_env_def)
  have r: "length (args ?code) \<le> 10
      \<and> (\<exists>st. lower_args sample_env 0 (take 1 (args ?code)) (init_state sample_env ?code) = Inr st)"
    by (simp add: sample_code_def val_arg_def)
  from frame_relative_unresolved [OF h] r show ?thesis by blast
qed

text \<open>
  C7 as stated fails: with an \<open>Arg_Dollar\<close> operand before the unresolvable
  \<open>Arg_FrameRelative\<close> operand, \<open>toIR\<close> stops at the assertion and the error is never
  reported.
\<close>

theorem frame_relative_counterexample:
  "type frame_arg = Arg_FrameRelative \<and> expr frame_arg = VarExp ''x''
   \<and> getFrameRelativeValue sample_env (Stree ''x'') = None
   \<and> toIR sample_env
       \<lparr> asmcode = Some (sample_code ''mov %0, %1'' [dollar_arg, frame_arg]), regs = 0 \<rparr>
     = Inl AssertionFailed"
  by (simp add: toIR_def lower_operands_def sample_code_def sample_env_def dollar_arg_def
      frame_arg_def)

subsection \<open>Memory operands on the lists\<close>

lemma lower_arg_Memory:
  assumes "type a = Arg_Memory"
  shows "\<exists>st1. lower_arg env a st =
            Inr ((memory_value (next_unique st) (expr a),
                  (case mode a of Mode_Input \<Rightarrow> ''m'' | Mode_Output \<Rightarrow> ''=m''
                   | Mode_Update \<Rightarrow> ''+m''),
                  \<not> is_output_arg a), st1)"
  using assms
  by (auto simp: Let_def is_output_arg_def m_cns_def mw_cns_def mrw_cns_def
      split: AsmArgMode.splits)

lemma lower_args_extend:
  assumes "lower_args env i as st = Inr st'"
  shows "\<exists>xs ys. outputs st' = outputs st @ xs \<and> inputs st' = inputs st @ ys
          \<and> length xs = length (filter is_output_arg as)
          \<and> length ys = length (filter (\<lambda>a. \<not> is_output_arg a) as)"
  using assms
proof (induction as arbitrary: i st)
  case Nil
  then show ?case by simp
next
  case (Cons a as)
  from Cons.prems obtain v c inp st1 where
    la: "lower_arg env a st = Inr ((v, c, inp), st1)" and
    rest: "lower_args env (Suc i) as (record_arg i v c inp st1) = Inr st'"
    by (auto simp del: lower_arg.simps split: sum.splits)
  note fr = lower_arg_frame[OF la]
  from Cons.IH[OF rest] obtain xs ys where
    x: "outputs st' = outputs (record_arg i v c inp st1) @ xs"
       "inputs st' = inputs (record_arg i v c inp st1) @ ys"
       "length xs = length (filter is_output_arg as)"
       "length ys = length (filter (\<lambda>a. \<not> is_output_arg a) as)"
    by blast
  show ?case
  proof (cases "is_output_arg a")
    case True
    then have "outputs st' = outputs st @ ((c, v) # xs)" "inputs st' = inputs st @ ys"
      using x fr by (simp_all add: record_arg_def cons_def)
    then show ?thesis using x True by (metis filter.simps(2) length_Cons)
  next
    case False
    then have "outputs st' = outputs st @ xs" "inputs st' = inputs st @ ((c, v) # ys)"
      using x fr by (simp_all add: record_arg_def cons_def)
    then show ?thesis using x False by (metis filter.simps(2) length_Cons)
  qed
qed

lemma lower_args_entry:
  assumes "lower_args env i as st = Inr st'" and "j < length as"
    and "type (as ! j) = Arg_Memory"
  shows "\<exists>u. (if is_output_arg (as ! j)
              then outputs st' ! (length (outputs st) + length (filter is_output_arg (take j as)))
              else inputs st' ! (length (inputs st)
                                 + length (filter (\<lambda>a. \<not> is_output_arg a) (take j as))))
             = ((case mode (as ! j) of Mode_Input \<Rightarrow> ''m'' | Mode_Output \<Rightarrow> ''=m''
                 | Mode_Update \<Rightarrow> ''+m''),
                memory_value u (expr (as ! j)))"
  using assms
proof (induction as arbitrary: i st j)
  case Nil
  then show ?case by simp
next
  case (Cons a as)
  from Cons.prems(1) obtain v c inp st1 where
    la: "lower_arg env a st = Inr ((v, c, inp), st1)" and
    rest: "lower_args env (Suc i) as (record_arg i v c inp st1) = Inr st'"
    by (auto simp del: lower_arg.simps split: sum.splits)
  note fr = lower_arg_frame[OF la]
  let ?st2 = "record_arg i v c inp st1"
  show ?case
  proof (cases j)
    case 0
    with Cons.prems have m: "type a = Arg_Memory" by simp
    from lower_arg_Memory[OF m, of env st] la
    have vc: "v = memory_value (next_unique st) (expr a)"
      "c = (case mode a of Mode_Input \<Rightarrow> ''m'' | Mode_Output \<Rightarrow> ''=m'' | Mode_Update \<Rightarrow> ''+m'')"
      by (auto simp del: lower_arg.simps)
    from lower_args_extend[OF rest] obtain xs ys where
      x: "outputs st' = outputs ?st2 @ xs" "inputs st' = inputs ?st2 @ ys"
      by blast
    have "(if is_output_arg a then outputs st' ! length (outputs st)
           else inputs st' ! length (inputs st)) = (c, v)"
      using x fr by (auto simp: record_arg_def cons_def nth_append)
    then show ?thesis
      using 0 vc by auto
  next
    case (Suc j')
    with Cons.prems have j': "j' < length as" "type (as ! j') = Arg_Memory" by simp_all
    from Cons.IH[OF rest j'] obtain u where
      u: "(if is_output_arg (as ! j')
           then outputs st' ! (length (outputs ?st2) + length (filter is_output_arg (take j' as)))
           else inputs st' ! (length (inputs ?st2)
                              + length (filter (\<lambda>a. \<not> is_output_arg a) (take j' as))))
          = ((case mode (as ! j') of Mode_Input \<Rightarrow> ''m'' | Mode_Output \<Rightarrow> ''=m''
              | Mode_Update \<Rightarrow> ''+m''),
             memory_value u (expr (as ! j')))"
      by blast
    have lo: "length (outputs ?st2) = length (outputs st) + (if is_output_arg a then 1 else 0)"
      and li: "length (inputs ?st2) = length (inputs st) + (if is_output_arg a then 0 else 1)"
      using fr by (auto simp: record_arg_def cons_def)
    show ?thesis
      using u lo li Suc by (intro exI[of _ u]) (auto simp: add.commute add.left_commute)
  qed
qed


lemma toIR_emits:
  assumes "asmcode stmt = Some code" and "toIR env stmt = Inr es"
  shows "\<exists>st. lower_operands env code = Inr st \<and> es \<noteq> []
            \<and> asm_outputs (hd es) = outputs st \<and> asm_inputs (hd es) = inputs st"
  using assms
  by (auto simp: toIR_def Let_def split: sum.splits if_splits)

lemma memory_operand_positions:
  assumes "asmcode stmt = Some code" and "toIR env stmt = Inr es"
    and "i < length (args code)" and "type (args code ! i) = Arg_Memory"
  shows "\<exists>st u. lower_operands env code = Inr st \<and> es \<noteq> []
        \<and> asm_outputs (hd es) = outputs st \<and> asm_inputs (hd es) = inputs st
        \<and> length (asm_outputs (hd es)) = length (filter is_output_arg (args code))
        \<and> length (asm_inputs (hd es)) = length (filter (\<lambda>a. \<not> is_output_arg a) (args code))
        \<and> (let p = nat (remap_args (length (args code)) (n_outputs st) (arg_map st) i);
               a = args code ! i; v = memory_value u (expr a); k = length (asm_outputs (hd es))
           in (mode a = Mode_Output \<longrightarrow> p < k \<and> asm_outputs (hd es) ! p = (''=m'', v))
            \<and> (mode a = Mode_Update \<longrightarrow> p < k \<and> asm_outputs (hd es) ! p = (''+m'', v))
            \<and> (mode a = Mode_Input \<longrightarrow> k \<le> p \<and> p - k < length (asm_inputs (hd es))
                  \<and> asm_inputs (hd es) ! (p - k) = (''m'', v)))"
proof -
  let ?as = "args code"
  let ?a = "?as ! i"
  let ?O = "length (filter is_output_arg (take i ?as))"
  let ?I = "length (filter (\<lambda>a. \<not> is_output_arg a) (take i ?as))"
  from toIR_emits[OF assms(1,2)] obtain st where
    ok: "lower_operands env code = Inr st" and ne: "es \<noteq> []" and
    eo: "asm_outputs (hd es) = outputs st" and ei: "asm_inputs (hd es) = inputs st"
    by blast
  from ok have la: "lower_args env 0 ?as (init_state env code) = Inr st"
    by (simp add: lower_operands_def split: if_splits)
  from lower_args_extend[OF la]
  have lo: "length (outputs st) = length (filter is_output_arg ?as)"
    and li: "length (inputs st) = length (filter (\<lambda>a. \<not> is_output_arg a) ?as)"
    by (auto simp: init_state_def)
  have z: "length (outputs (init_state env code)) = 0" "length (inputs (init_state env code)) = 0"
    by (simp_all add: init_state_def)
  from lower_args_entry[OF la assms(3,4), unfolded z add_0]
  obtain u where
    u: "(if is_output_arg ?a then outputs st ! ?O else inputs st ! ?I)
        = ((case mode ?a of Mode_Input \<Rightarrow> ''m'' | Mode_Output \<Rightarrow> ''=m'' | Mode_Update \<Rightarrow> ''+m''),
           memory_value u (expr ?a))"
    by blast
  let ?p = "nat (remap_args (length ?as) (n_outputs st) (arg_map st) i)"
  have p: "?p = (if is_output_arg ?a then ?O else length (outputs st) + ?I)"
    using final_map_formula[OF ok assms(3)] lo by (simp flip: of_nat_add)
  have out: "is_output_arg ?a = (mode ?a \<noteq> Mode_Input)"
    using assms(4) by (cases "mode ?a") (simp_all add: is_output_arg_def)
  have Olt: "?O < length (outputs st)" if "is_output_arg ?a"
    using filter_take_less[of i ?as is_output_arg] assms(3) that lo by simp
  have Ilt: "?I < length (inputs st)" if "\<not> is_output_arg ?a"
    using filter_take_less[of i ?as "\<lambda>a. \<not> is_output_arg a"] assms(3) that li by simp
  have body: "(mode ?a = Mode_Output \<longrightarrow>
                 ?p < length (outputs st) \<and> outputs st ! ?p = (''=m'', memory_value u (expr ?a)))
            \<and> (mode ?a = Mode_Update \<longrightarrow>
                 ?p < length (outputs st) \<and> outputs st ! ?p = (''+m'', memory_value u (expr ?a)))
            \<and> (mode ?a = Mode_Input \<longrightarrow>
                 length (outputs st) \<le> ?p \<and> ?p - length (outputs st) < length (inputs st)
                 \<and> inputs st ! (?p - length (outputs st)) = (''m'', memory_value u (expr ?a)))"
  proof (cases "mode ?a")
    case Mode_Input
    then have no: "\<not> is_output_arg ?a" using out by simp
    with p have "?p = length (outputs st) + ?I" by simp
    with u no Ilt Mode_Input show ?thesis by simp
  next
    case Mode_Output
    then have o: "is_output_arg ?a" using out by simp
    with p have "?p = ?O" by simp
    with u o Olt Mode_Output show ?thesis by simp
  next
    case Mode_Update
    then have o: "is_output_arg ?a" using out by simp
    with p have "?p = ?O" by simp
    with u o Olt Mode_Update show ?thesis by simp
  qed
  show ?thesis
    apply (rule exI[of _ st])
    apply (rule exI[of _ u])
    using ok ne eo ei lo li body
    apply (simp add: Let_def)
    done
qed

lemma lower_arg_cns:
  assumes "lower_arg env a st = Inr ((v, c, inp), st')"
  shows "(inp \<longrightarrow> c = ''i'' \<or> c = ''p'' \<or> c = ''m'')
       \<and> (\<not> inp \<longrightarrow> c = ''=m'' \<or> c = ''+m'')"
  using assms
  by (auto simp: Let_def i_cns_def p_cns_def m_cns_def mw_cns_def mrw_cns_def
      split: AsmArgType.splits Expression.splits option.splits AsmArgMode.splits if_splits)

lemma lower_args_cns:
  assumes "lower_args env i as st = Inr st'"
  shows "(\<forall>e\<in>set (inputs st'). e \<in> set (inputs st) \<or> fst e = ''i'' \<or> fst e = ''p'' \<or> fst e = ''m'')
       \<and> (\<forall>e\<in>set (outputs st'). e \<in> set (outputs st) \<or> fst e = ''=m'' \<or> fst e = ''+m'')"
  using assms
proof (induction as arbitrary: i st)
  case Nil
  then show ?case by simp
next
  case (Cons a as)
  from Cons.prems obtain v c inp st1 where
    la: "lower_arg env a st = Inr ((v, c, inp), st1)" and
    rest: "lower_args env (Suc i) as (record_arg i v c inp st1) = Inr st'"
    by (auto simp del: lower_arg.simps split: sum.splits)
  note fr = lower_arg_frame[OF la]
  note cn = lower_arg_cns[OF la]
  note ih = Cons.IH[OF rest]
  have i2: "set (inputs (record_arg i v c inp st1)) \<subseteq> set (inputs st) \<union> (if inp then {(c, v)} else {})"
    and o2: "set (outputs (record_arg i v c inp st1)) \<subseteq> set (outputs st) \<union> (if inp then {} else {(c, v)})"
    using fr by (auto simp: record_arg_def cons_def)
  have A: "e \<in> set (inputs st) \<or> fst e = ''i'' \<or> fst e = ''p'' \<or> fst e = ''m''"
    if "e \<in> set (inputs st')" for e
  proof -
    from ih that consider "e \<in> set (inputs (record_arg i v c inp st1))"
      | "fst e = ''i'' \<or> fst e = ''p'' \<or> fst e = ''m''" by blast
    then show ?thesis
    proof cases
      case 1
      with i2 have "e \<in> set (inputs st) \<or> (inp \<and> e = (c, v))"
        by (auto split: if_splits)
      with cn show ?thesis by auto
    next
      case 2
      then show ?thesis by simp
    qed
  qed
  have B: "e \<in> set (outputs st) \<or> fst e = ''=m'' \<or> fst e = ''+m''"
    if "e \<in> set (outputs st')" for e
  proof -
    from ih that consider "e \<in> set (outputs (record_arg i v c inp st1))"
      | "fst e = ''=m'' \<or> fst e = ''+m''" by blast
    then show ?thesis
    proof cases
      case 1
      with o2 have "e \<in> set (outputs st) \<or> (\<not> inp \<and> e = (c, v))"
        by (auto split: if_splits)
      with cn show ?thesis by auto
    next
      case 2
      then show ?thesis by simp
    qed
  qed
  show ?case using A B by blast
qed

lemma filter_take_onto:
  "q < length (filter P xs) \<Longrightarrow>
   \<exists>j<length xs. P (xs ! j) \<and> length (filter P (take j xs)) = q"
proof (induction xs rule: rev_induct)
  case Nil
  then show ?case by simp
next
  case (snoc x xs)
  show ?case
  proof (cases "q < length (filter P xs)")
    case True
    from snoc.IH[OF True] obtain j where
      j: "j < length xs" "P (xs ! j)" "length (filter P (take j xs)) = q" by blast
    then have "j < length (xs @ [x]) \<and> P ((xs @ [x]) ! j)
             \<and> length (filter P (take j (xs @ [x]))) = q"
      by (simp add: nth_append)
    then show ?thesis by blast
  next
    case False
    with snoc.prems have px: "P x" and q: "q = length (filter P xs)"
      by (auto split: if_splits)
    have "length xs < length (xs @ [x]) \<and> P ((xs @ [x]) ! length xs)
        \<and> length (filter P (take (length xs) (xs @ [x]))) = q"
      using px q by simp
    then show ?thesis by blast
  qed
qed

lemma memory_step:
  assumes m: "type a = Arg_Memory"
    and pre: "lower_args env 0 pre s0 = Inr s"
  shows "\<exists>s'. lower_args env 0 (pre @ [a]) s0 = Inr s'
          \<and> (mode a = Mode_Input \<longrightarrow>
                inputs s' = inputs s @ [(''m'', memory_value (next_unique s) (expr a))]
                \<and> outputs s' = outputs s)
          \<and> (mode a = Mode_Output \<longrightarrow>
                outputs s' = outputs s @ [(''=m'', memory_value (next_unique s) (expr a))]
                \<and> inputs s' = inputs s)
          \<and> (mode a = Mode_Update \<longrightarrow>
                outputs s' = outputs s @ [(''+m'', memory_value (next_unique s) (expr a))]
                \<and> inputs s' = inputs s)"
proof -
  let ?c = "case mode a of Mode_Input \<Rightarrow> ''m'' | Mode_Output \<Rightarrow> ''=m'' | Mode_Update \<Rightarrow> ''+m''"
  let ?v = "memory_value (next_unique s) (expr a)"
  from lower_arg_Memory[OF m, of env s] obtain s1 where
    la: "lower_arg env a s = Inr ((?v, ?c, \<not> is_output_arg a), s1)" by blast
  note fr = lower_arg_frame[OF la]
  let ?s' = "record_arg (length pre) ?v ?c (\<not> is_output_arg a) s1"
  have run: "lower_args env 0 (pre @ [a]) s0 = Inr ?s'"
    using pre la by (simp add: lower_args_append del: lower_arg.simps)
  have out: "is_output_arg a = (mode a \<noteq> Mode_Input)"
    using m by (cases "mode a") (simp_all add: is_output_arg_def)
  have "(mode a = Mode_Input \<longrightarrow> inputs ?s' = inputs s @ [(''m'', ?v)] \<and> outputs ?s' = outputs s)
      \<and> (mode a = Mode_Output \<longrightarrow> outputs ?s' = outputs s @ [(''=m'', ?v)] \<and> inputs ?s' = inputs s)
      \<and> (mode a = Mode_Update \<longrightarrow> outputs ?s' = outputs s @ [(''+m'', ?v)] \<and> inputs ?s' = inputs s)"
    using fr out by (cases "mode a") (simp_all add: record_arg_def cons_def)
  with run show ?thesis by blast
qed


lemma emitted_lists:
  assumes ok: "lower_operands env code = Inr st"
  shows "(\<forall>e\<in>set (inputs st). fst e = ''i'' \<or> fst e = ''p'' \<or> fst e = ''m'')
       \<and> (\<forall>e\<in>set (outputs st). fst e = ''=m'' \<or> fst e = ''+m'')
       \<and> (\<forall>v. (''=m'', v) \<notin> set (inputs st) \<and> (''+m'', v) \<notin> set (inputs st))
       \<and> (\<forall>q<length (inputs st). \<exists>j<length (args code). \<not> is_output_arg (args code ! j)
             \<and> nat (remap_args (length (args code)) (n_outputs st) (arg_map st) j)
                 = length (outputs st) + q)
       \<and> (\<forall>q<length (outputs st). \<exists>j<length (args code). is_output_arg (args code ! j)
             \<and> nat (remap_args (length (args code)) (n_outputs st) (arg_map st) j) = q)"
proof -
  let ?as = "args code"
  from ok have la: "lower_args env 0 ?as (init_state env code) = Inr st"
    by (simp add: lower_operands_def split: if_splits)
  from lower_args_cns[OF la]
  have ci: "\<forall>e\<in>set (inputs st). fst e = ''i'' \<or> fst e = ''p'' \<or> fst e = ''m''"
    and co: "\<forall>e\<in>set (outputs st). fst e = ''=m'' \<or> fst e = ''+m''"
    by (simp_all add: init_state_def)
  have never: "(''=m'', v) \<notin> set (inputs st) \<and> (''+m'', v) \<notin> set (inputs st)" for v
    using ci by fastforce
  from lower_args_extend[OF la]
  have lo: "length (outputs st) = length (filter is_output_arg ?as)"
    and li: "length (inputs st) = length (filter (\<lambda>a. \<not> is_output_arg a) ?as)"
    by (auto simp: init_state_def)
  have si: "\<exists>j<length ?as. \<not> is_output_arg (?as ! j)
             \<and> nat (remap_args (length ?as) (n_outputs st) (arg_map st) j)
                 = length (outputs st) + q"
    if "q < length (inputs st)" for q
  proof -
    from that li filter_take_onto[of q "\<lambda>a. \<not> is_output_arg a" ?as] obtain j where
      j: "j < length ?as" "\<not> is_output_arg (?as ! j)"
         "length (filter (\<lambda>a. \<not> is_output_arg a) (take j ?as)) = q"
      by auto
    have "nat (remap_args (length ?as) (n_outputs st) (arg_map st) j) = length (outputs st) + q"
      using final_map_formula[OF ok j(1)] j(2,3) lo by (simp flip: of_nat_add)
    with j show ?thesis by blast
  qed
  have so: "\<exists>j<length ?as. is_output_arg (?as ! j)
             \<and> nat (remap_args (length ?as) (n_outputs st) (arg_map st) j) = q"
    if "q < length (outputs st)" for q
  proof -
    from that lo filter_take_onto[of q is_output_arg ?as] obtain j where
      j: "j < length ?as" "is_output_arg (?as ! j)"
         "length (filter is_output_arg (take j ?as)) = q"
      by auto
    have "nat (remap_args (length ?as) (n_outputs st) (arg_map st) j) = q"
      using final_map_formula[OF ok j(1)] j(2,3) by simp
    with j show ?thesis by blast
  qed
  show ?thesis using ci co never si so by blast
qed

text \<open>
  C6. Let operand \<open>i\<close> of a statement be of kind \<open>Arg_Memory\<close>.

  Its lowering never fails: in every state the switch yields the operand's value with
  the constraint \<open>m\<close> as an input for \<open>Mode_Input\<close>, \<open>=m\<close> as an output for
  \<open>Mode_Output\<close>, and \<open>+m\<close> as an output for \<open>Mode_Update\<close>.

  When the loop has lowered the operands before it, its own turn appends exactly that
  entry: to the output list for \<open>Mode_Output\<close> and \<open>Mode_Update\<close>, leaving the input
  list as it was, and to the input list for \<open>Mode_Input\<close>, leaving the output list as
  it was.

  When \<open>toIR\<close> emits the statement, let \<open>p\<close> be the operand's number after remapping,
  which counts through the output list and then the input list. With \<open>Mode_Output\<close> or
  \<open>Mode_Update\<close> entry \<open>p\<close> of the output list is the operand's value with \<open>=m\<close> or
  \<open>+m\<close>; with \<open>Mode_Input\<close> the operand's value stands in the input list with \<open>m\<close>.
  Every entry of the input list has the constraint \<open>i\<close>, \<open>p\<close> or \<open>m\<close> and every entry of
  the output list has \<open>=m\<close> or \<open>+m\<close>, so no entry with \<open>=m\<close> or \<open>+m\<close> is on the input
  list; every place of the input list is the operand number of an operand that is not
  an output, and every place of the output list that of an output operand.
\<close>

theorem memory_operand_lists:
  assumes "asmcode stmt = Some code" and "i < length (args code)"
    and "type (args code ! i) = Arg_Memory"
  defines "a \<equiv> args code ! i"
  shows "(\<forall>s. \<exists>s1. lower_arg env a s =
            Inr ((memory_value (next_unique s) (expr a),
                  (case mode a of Mode_Input \<Rightarrow> ''m'' | Mode_Output \<Rightarrow> ''=m''
                   | Mode_Update \<Rightarrow> ''+m''),
                  mode a = Mode_Input), s1))
     \<and> (\<forall>s. lower_args env 0 (take i (args code)) (init_state env code) = Inr s \<longrightarrow>
          (\<exists>s'. lower_args env 0 (take (Suc i) (args code)) (init_state env code) = Inr s'
             \<and> (mode a = Mode_Input \<longrightarrow>
                   inputs s' = inputs s @ [(''m'', memory_value (next_unique s) (expr a))]
                   \<and> outputs s' = outputs s)
             \<and> (mode a = Mode_Output \<longrightarrow>
                   outputs s' = outputs s @ [(''=m'', memory_value (next_unique s) (expr a))]
                   \<and> inputs s' = inputs s)
             \<and> (mode a = Mode_Update \<longrightarrow>
                   outputs s' = outputs s @ [(''+m'', memory_value (next_unique s) (expr a))]
                   \<and> inputs s' = inputs s)))
     \<and> (\<forall>es. toIR env stmt = Inr es \<longrightarrow>
          (\<exists>st u. lower_operands env code = Inr st \<and> es \<noteq> []
             \<and> asm_outputs (hd es) = outputs st \<and> asm_inputs (hd es) = inputs st
             \<and> length (asm_outputs (hd es)) = length (filter is_output_arg (args code))
             \<and> length (asm_inputs (hd es))
                 = length (filter (\<lambda>a. \<not> is_output_arg a) (args code))
             \<and> (let p = nat (remap_args (length (args code)) (n_outputs st) (arg_map st) i);
                     v = memory_value u (expr a); k = length (asm_outputs (hd es))
                 in (mode a = Mode_Output \<longrightarrow> p < k \<and> asm_outputs (hd es) ! p = (''=m'', v))
                  \<and> (mode a = Mode_Update \<longrightarrow> p < k \<and> asm_outputs (hd es) ! p = (''+m'', v))
                  \<and> (mode a = Mode_Input \<longrightarrow> k \<le> p \<and> p - k < length (asm_inputs (hd es))
                        \<and> asm_inputs (hd es) ! (p - k) = (''m'', v)))
             \<and> (\<forall>e\<in>set (asm_inputs (hd es)). fst e = ''i'' \<or> fst e = ''p'' \<or> fst e = ''m'')
             \<and> (\<forall>e\<in>set (asm_outputs (hd es)). fst e = ''=m'' \<or> fst e = ''+m'')
             \<and> (\<forall>v. (''=m'', v) \<notin> set (asm_inputs (hd es))
                    \<and> (''+m'', v) \<notin> set (asm_inputs (hd es)))
             \<and> (\<forall>q<length (asm_inputs (hd es)). \<exists>j<length (args code).
                    \<not> is_output_arg (args code ! j)
                    \<and> nat (remap_args (length (args code)) (n_outputs st) (arg_map st) j)
                        = length (asm_outputs (hd es)) + q)
             \<and> (\<forall>q<length (asm_outputs (hd es)). \<exists>j<length (args code).
                    is_output_arg (args code ! j)
                    \<and> nat (remap_args (length (args code)) (n_outputs st) (arg_map st) j) = q)))"
proof -
  have m: "type a = Arg_Memory" using assms(3) by (simp add: a_def)
  have out: "(\<not> is_output_arg a) = (mode a = Mode_Input)"
    using m by (cases "mode a") (simp_all add: is_output_arg_def)
  have one: "\<exists>s1. lower_arg env a s =
            Inr ((memory_value (next_unique s) (expr a),
                  (case mode a of Mode_Input \<Rightarrow> ''m'' | Mode_Output \<Rightarrow> ''=m''
                   | Mode_Update \<Rightarrow> ''+m''),
                  mode a = Mode_Input), s1)" for s
    using lower_arg_Memory[OF m, of env s] out by (simp del: lower_arg.simps)
  have tk: "take (Suc i) (args code) = take i (args code) @ [a]"
    using assms(2) by (simp add: take_Suc_conv_app_nth a_def)
  have two: "\<exists>s'. lower_args env 0 (take (Suc i) (args code)) (init_state env code) = Inr s'
             \<and> (mode a = Mode_Input \<longrightarrow>
                   inputs s' = inputs s @ [(''m'', memory_value (next_unique s) (expr a))]
                   \<and> outputs s' = outputs s)
             \<and> (mode a = Mode_Output \<longrightarrow>
                   outputs s' = outputs s @ [(''=m'', memory_value (next_unique s) (expr a))]
                   \<and> inputs s' = inputs s)
             \<and> (mode a = Mode_Update \<longrightarrow>
                   outputs s' = outputs s @ [(''+m'', memory_value (next_unique s) (expr a))]
                   \<and> inputs s' = inputs s)"
    if "lower_args env 0 (take i (args code)) (init_state env code) = Inr s" for s
    unfolding tk by (rule memory_step[OF m that])
  have three: "\<exists>st u. lower_operands env code = Inr st \<and> es \<noteq> []
             \<and> asm_outputs (hd es) = outputs st \<and> asm_inputs (hd es) = inputs st
             \<and> length (asm_outputs (hd es)) = length (filter is_output_arg (args code))
             \<and> length (asm_inputs (hd es))
                 = length (filter (\<lambda>a. \<not> is_output_arg a) (args code))
             \<and> (let p = nat (remap_args (length (args code)) (n_outputs st) (arg_map st) i);
                     v = memory_value u (expr a); k = length (asm_outputs (hd es))
                 in (mode a = Mode_Output \<longrightarrow> p < k \<and> asm_outputs (hd es) ! p = (''=m'', v))
                  \<and> (mode a = Mode_Update \<longrightarrow> p < k \<and> asm_outputs (hd es) ! p = (''+m'', v))
                  \<and> (mode a = Mode_Input \<longrightarrow> k \<le> p \<and> p - k < length (asm_inputs (hd es))
                        \<and> asm_inputs (hd es) ! (p - k) = (''m'', v)))
             \<and> (\<forall>e\<in>set (asm_inputs (hd es)). fst e = ''i'' \<or> fst e = ''p'' \<or> fst e = ''m'')
             \<and> (\<forall>e\<in>set (asm_outputs (hd es)). fst e = ''=m'' \<or> fst e = ''+m'')
             \<and> (\<forall>v. (''=m'', v) \<notin> set (asm_inputs (hd es))
                    \<and> (''+m'', v) \<notin> set (asm_inputs (hd es)))
             \<and> (\<forall>q<length (asm_inputs (hd es)). \<exists>j<length (args code).
                    \<not> is_output_arg (args code ! j)
                    \<and> nat (remap_args (length (args code)) (n_outputs st) (arg_map st) j)
                        = length (asm_outputs (hd es)) + q)
             \<and> (\<forall>q<length (asm_outputs (hd es)). \<exists>j<length (args code).
                    is_output_arg (args code ! j)
                    \<and> nat (remap_args (length (args code)) (n_outputs st) (arg_map st) j) = q)"
    if em: "toIR env stmt = Inr es" for es
  proof -
    from memory_operand_positions[OF assms(1) em assms(2,3)] obtain st u where
      old: "lower_operands env code = Inr st" "es \<noteq> []"
        "asm_outputs (hd es) = outputs st" "asm_inputs (hd es) = inputs st"
        "length (asm_outputs (hd es)) = length (filter is_output_arg (args code))"
        "length (asm_inputs (hd es)) = length (filter (\<lambda>a. \<not> is_output_arg a) (args code))"
        "let p = nat (remap_args (length (args code)) (n_outputs st) (arg_map st) i);
             a = args code ! i; v = memory_value u (expr a); k = length (asm_outputs (hd es))
         in (mode a = Mode_Output \<longrightarrow> p < k \<and> asm_outputs (hd es) ! p = (''=m'', v))
          \<and> (mode a = Mode_Update \<longrightarrow> p < k \<and> asm_outputs (hd es) ! p = (''+m'', v))
          \<and> (mode a = Mode_Input \<longrightarrow> k \<le> p \<and> p - k < length (asm_inputs (hd es))
                \<and> asm_inputs (hd es) ! (p - k) = (''m'', v))"
      by blast
    note el = emitted_lists[OF old(1), folded old(3) old(4)]
    show ?thesis
      apply (rule exI[of _ st])
      apply (rule exI[of _ u])
      using old el unfolding a_def Let_def
      apply (intro conjI)
      apply blast+
      done
  qed
  show ?thesis using one two three by blast
qed


lemma sample_modes_emitted:
  "toIR sample_env
     \<lparr> asmcode = Some (sample_code ''mov %1, %0'' [val_arg, loc_arg, upd_arg, lit_arg]),
       regs = 0 \<rparr> =
     Inr [\<lparr> asm_string = ''mov %0, %2'',
            asm_outputs = [(''=m'', Stree ''loc''), (''+m'', Stree ''acc'')],
            asm_inputs = [(''i'', Elem (OtherExp ''val'')),
                          (''m'', AnonStatic 0 (RealExp ''1.5''))],
            asm_clobbers = [], asm_volatile = True, asm_input_p = False \<rparr>]"
  by (simp add: toIR_def make_clobbers_none sample_defs upd_arg_def lit_arg_def lower_defs
      remap_args_apply is_digit_def char_of_def bit_0)

theorem memory_operand_lists_witness:
  "type loc_arg = Arg_Memory \<and> mode loc_arg = Mode_Output
   \<and> type upd_arg = Arg_Memory \<and> mode upd_arg = Mode_Update
   \<and> type lit_arg = Arg_Memory \<and> mode lit_arg = Mode_Input
   \<and> (\<exists>s1. lower_arg sample_env loc_arg (init_state sample_env (sample_code [] [])) =
             Inr ((Stree ''loc'', ''=m'', False), s1))
   \<and> (\<exists>s1. lower_arg sample_env upd_arg (init_state sample_env (sample_code [] [])) =
             Inr ((Stree ''acc'', ''+m'', False), s1))
   \<and> (\<exists>s1. lower_arg sample_env lit_arg (init_state sample_env (sample_code [] [])) =
             Inr ((AnonStatic 0 (RealExp ''1.5''), ''m'', True), s1))
   \<and> toIR sample_env
       \<lparr> asmcode = Some (sample_code ''mov %1, %0'' [val_arg, loc_arg, upd_arg, lit_arg]),
         regs = 0 \<rparr> =
       Inr [\<lparr> asm_string = ''mov %0, %2'',
              asm_outputs = [(''=m'', Stree ''loc''), (''+m'', Stree ''acc'')],
              asm_inputs = [(''i'', Elem (OtherExp ''val'')),
                            (''m'', AnonStatic 0 (RealExp ''1.5''))],
              asm_clobbers = [], asm_volatile = True, asm_input_p = False \<rparr>]
   \<and> (''=m'', Stree ''loc'') \<notin> set [(''i'', Elem (OtherExp ''val'')),
                                      (''m'', AnonStatic 0 (RealExp ''1.5''))]
   \<and> (''+m'', Stree ''acc'') \<notin> set [(''i'', Elem (OtherExp ''val'')),
                                      (''m'', AnonStatic 0 (RealExp ''1.5''))]"
proof -
  let ?code = "sample_code ''mov %1, %0'' [val_arg, loc_arg, upd_arg, lit_arg]"
  let ?stmt = "\<lparr> asmcode = Some ?code, regs = 0 \<rparr>"
  let ?s0 = "init_state sample_env (sample_code [] [])"
  have h: "asmcode ?stmt = Some ?code"
    by simp
  have e: "args ?code ! 1 = loc_arg" "args ?code ! 2 = upd_arg" "args ?code ! 3 = lit_arg"
    "1 < length (args ?code)" "2 < length (args ?code)" "3 < length (args ?code)"
    by (simp_all add: sample_code_def)
  have t: "type loc_arg = Arg_Memory" "mode loc_arg = Mode_Output"
    "type upd_arg = Arg_Memory" "mode upd_arg = Mode_Update"
    "type lit_arg = Arg_Memory" "mode lit_arg = Mode_Input"
    "expr loc_arg = VarExp ''loc''" "expr upd_arg = VarExp ''acc''"
    "expr lit_arg = RealExp ''1.5''"
    by (simp_all add: loc_arg_def upd_arg_def lit_arg_def)
  have n0: "next_unique ?s0 = 0"
    by (simp add: init_state_def sample_env_def)
  have h1: "type (args ?code ! 1) = Arg_Memory" and h2: "type (args ?code ! 2) = Arg_Memory"
    and h3: "type (args ?code ! 3) = Arg_Memory"
    using e t by simp_all
  note T1 = memory_operand_lists [OF h e(4) h1, where env = sample_env, unfolded e]
  note T2 = memory_operand_lists [OF h e(5) h2, where env = sample_env, unfolded e]
  note T3 = memory_operand_lists [OF h e(6) h3, where env = sample_env, unfolded e]
  from T1 have "\<exists>s1. lower_arg sample_env loc_arg ?s0 =
      Inr ((memory_value (next_unique ?s0) (expr loc_arg),
            (case mode loc_arg of Mode_Input \<Rightarrow> ''m'' | Mode_Output \<Rightarrow> ''=m''
             | Mode_Update \<Rightarrow> ''+m''), mode loc_arg = Mode_Input), s1)"
    by blast
  then have a1: "\<exists>s1. lower_arg sample_env loc_arg ?s0 = Inr ((Stree ''loc'', ''=m'', False), s1)"
    unfolding t n0 by simp
  from T2 have "\<exists>s1. lower_arg sample_env upd_arg ?s0 =
      Inr ((memory_value (next_unique ?s0) (expr upd_arg),
            (case mode upd_arg of Mode_Input \<Rightarrow> ''m'' | Mode_Output \<Rightarrow> ''=m''
             | Mode_Update \<Rightarrow> ''+m''), mode upd_arg = Mode_Input), s1)"
    by blast
  then have a2: "\<exists>s1. lower_arg sample_env upd_arg ?s0 = Inr ((Stree ''acc'', ''+m'', False), s1)"
    unfolding t n0 by simp
  from T3 have "\<exists>s1. lower_arg sample_env lit_arg ?s0 =
      Inr ((memory_value (next_unique ?s0) (expr lit_arg),
            (case mode lit_arg of Mode_Input \<Rightarrow> ''m'' | Mode_Output \<Rightarrow> ''=m''
             | Mode_Update \<Rightarrow> ''+m''), mode lit_arg = Mode_Input), s1)"
    by blast
  then have a3: "\<exists>s1. lower_arg sample_env lit_arg ?s0 =
      Inr ((AnonStatic 0 (RealExp ''1.5''), ''m'', True), s1)"
    unfolding t n0 by simp
  from T1 sample_modes_emitted
  have "\<forall>v. (''=m'', v) \<notin> set (asm_inputs (hd [\<lparr> asm_string = ''mov %0, %2'',
            asm_outputs = [(''=m'', Stree ''loc''), (''+m'', Stree ''acc'')],
            asm_inputs = [(''i'', Elem (OtherExp ''val'')),
                          (''m'', AnonStatic 0 (RealExp ''1.5''))],
            asm_clobbers = [], asm_volatile = True, asm_input_p = False \<rparr>]))
          \<and> (''+m'', v) \<notin> set (asm_inputs (hd [\<lparr> asm_string = ''mov %0, %2'',
            asm_outputs = [(''=m'', Stree ''loc''), (''+m'', Stree ''acc'')],
            asm_inputs = [(''i'', Elem (OtherExp ''val'')),
                          (''m'', AnonStatic 0 (RealExp ''1.5''))],
            asm_clobbers = [], asm_volatile = True, asm_input_p = False \<rparr>]))"
    by blast
  then have nv: "(''=m'', Stree ''loc'') \<notin> set [(''i'', Elem (OtherExp ''val'')),
                                      (''m'', AnonStatic 0 (RealExp ''1.5''))]"
    "(''+m'', Stree ''acc'') \<notin> set [(''i'', Elem (OtherExp ''val'')),
                                      (''m'', AnonStatic 0 (RealExp ''1.5''))]"
    by simp_all
  show ?thesis
    using t(1-6) a1 a2 a3 sample_modes_emitted nv by (intro conjI)
qed

subsection \<open>The checks of the extended statement\<close>









end
